theory Spec2Isabelle
  imports Main "HOL-Library.Sublist"
begin

section \<open>Data model of \<open>src/main.ts\<close>\<close>

text \<open>
  A JavaScript object used as a dictionary is modelled by the list of its own enumerable
  properties in enumeration order: \<open>for (k in o)\<close> runs over \<open>map fst o\<close> and the read
  \<open>o[k]\<close> is \<open>map_of o k\<close>. Optional fields are \<open>option\<close>s (\<open>None\<close> is \<open>undefined\<close>).
  Strings are lists of characters, compared unit by unit as JavaScript compares the code
  units of its strings. \<open>requiredApproverCount\<close> is a \<open>number\<close> read from JSON; it is
  modelled as an integer of either sign.
\<close>

type_synonym 'v obj = "(string \<times> 'v) list"

record TeamConfiguration =
  team_description :: "string option"
  team_users :: "string list"

record ReviewerConfiguration =
  conf_description :: "string option"
  conf_teams :: "string list option"
  conf_users :: "string list option"
  requiredApproverCount :: int

record OverrideCriteria =
  crit_description :: "string option"
  onlyModifiedByUsers :: "string list option"
  onlyModifiedFileRegExs :: "string list option"

record Reviewers =
  teams :: "TeamConfiguration obj option"
  reviewers :: "ReviewerConfiguration obj"
  overrides :: "OverrideCriteria list option"

text \<open>
  The exceptions the evaluated code can throw: a \<open>TypeError\<close> when a property is read from
  \<open>undefined\<close> or \<open>undefined\<close> is spread, and the \<open>SyntaxError\<close> of the \<open>RegExp\<close>
  constructor.
\<close>

datatype error = TypeError | SyntaxError

text \<open>\<open>x || []\<close> and \<open>x || {}\<close> for an optional array or dictionary \<open>x\<close>.\<close>

definition or_empty :: "'a list option \<Rightarrow> 'a list" where
  "or_empty x = (case x of None \<Rightarrow> [] | Some xs \<Rightarrow> xs)"

subsection \<open>The built-in \<open>Set\<close>\<close>

text \<open>
  \<open>new Set(iterable)\<close> adds the elements one by one; an element already present is not added
  again, and the first insertion fixes its position.
\<close>

type_synonym 'a js_set = "'a list"

definition Set_add :: "'a js_set \<Rightarrow> 'a \<Rightarrow> 'a js_set" where
  "Set_add s x = (if x \<in> set s then s else s @ [x])"

definition new_Set :: "'a list \<Rightarrow> 'a js_set" where
  "new_Set xs = foldl Set_add [] xs"

definition Set_has :: "'a js_set \<Rightarrow> 'a \<Rightarrow> bool" where
  "Set_has s x = (x \<in> set s)"

subsection \<open>Array methods whose callback can throw\<close>

fun mapE :: "('a \<Rightarrow> error + 'b) \<Rightarrow> 'a list \<Rightarrow> error + 'b list" where
  "mapE f [] = Inr []"
| "mapE f (x # xs) =
     (case f x of
        Inl e \<Rightarrow> Inl e
      | Inr y \<Rightarrow> (case mapE f xs of Inl e \<Rightarrow> Inl e | Inr ys \<Rightarrow> Inr (y # ys)))"

text \<open>\<open>some\<close> stops at the first element whose callback returns true, \<open>every\<close> at the first
  whose callback returns false; an exception leaves the loop at once.\<close>

fun someE :: "('a \<Rightarrow> error + bool) \<Rightarrow> 'a list \<Rightarrow> error + bool" where
  "someE f [] = Inr False"
| "someE f (x # xs) =
     (case f x of Inl e \<Rightarrow> Inl e | Inr b \<Rightarrow> if b then Inr True else someE f xs)"

fun everyE :: "('a \<Rightarrow> error + bool) \<Rightarrow> 'a list \<Rightarrow> error + bool" where
  "everyE f [] = Inr True"
| "everyE f (x # xs) =
     (case f x of Inl e \<Rightarrow> Inl e | Inr b \<Rightarrow> if b then everyE f xs else Inr False)"

section \<open>Approver-set resolution\<close>

text \<open>
  \<open>teams[team].users\<close>: when \<open>team\<close> is not an own property of \<open>teams\<close> the read gives
  \<open>undefined\<close> and \<open>.users\<close> throws a \<open>TypeError\<close>. (A name inherited from
  \<open>Object.prototype\<close>, such as \<open>constructor\<close>, gives an object without \<open>users\<close>, and
  spreading that \<open>undefined\<close> in the \<open>reduce\<close> throws a \<open>TypeError\<close> as well.)
\<close>

definition team_members :: "TeamConfiguration obj \<Rightarrow> string \<Rightarrow> error + string list" where
  "team_members teams' team =
     (case map_of teams' team of None \<Rightarrow> Inl TypeError | Some t \<Rightarrow> Inr (team_users t))"

definition getPossibleApprovers ::
    "ReviewerConfiguration \<Rightarrow> TeamConfiguration obj \<Rightarrow> error + string js_set" where
  "getPossibleApprovers conf teams' =
     (let namedUsers = or_empty (conf_users conf) in
      case mapE (team_members teams') (or_empty (conf_teams conf)) of
        Inl e \<Rightarrow> Inl e
      | Inr memberLists \<Rightarrow>
          (let usersFromAllNamedTeams = foldl (\<lambda>left right. left @ right) [] memberLists
           in Inr (new_Set (namedUsers @ usersFromAllNamedTeams))))"

section \<open>Rule evaluation\<close>

definition startsWith :: "string \<Rightarrow> string \<Rightarrow> bool" where
  "startsWith file p = prefix p file"

text \<open>
  The two logging callbacks are modelled by a log that the loop extends. An entry keeps the
  data its message is formatted from: the prefix of a rule that is met; for a rule that
  is not met, the affected files, the rule, the count and the relevant approvals.
\<close>

datatype log_entry =
    InfoLog string
  | WarnLog "string list" ReviewerConfiguration nat "string list"

text \<open>The body of the loop over the prefixes; the state is \<open>approved\<close> and the log.\<close>

definition check_body ::
    "Reviewers \<Rightarrow> string list \<Rightarrow> string list \<Rightarrow> string \<Rightarrow> bool \<times> log_entry list
      \<Rightarrow> error + bool \<times> log_entry list" where
  "check_body reviewersConfig modifiedFilepaths approvals p st =
     (let affectedFiles = filter (\<lambda>file. startsWith file p) modifiedFilepaths in
      if length affectedFiles > 0 then
        (case map_of (reviewers reviewersConfig) p of
           None \<Rightarrow> Inl TypeError
         | Some reviewRequirements \<Rightarrow>
             (case getPossibleApprovers reviewRequirements
                     (or_empty (teams reviewersConfig)) of
                Inl e \<Rightarrow> Inl e
              | Inr possibleApprovers \<Rightarrow>
                  (let relevantApprovals = filter (Set_has possibleApprovers) approvals;
                       count = length relevantApprovals in
                   if int count < requiredApproverCount reviewRequirements
                   then Inr (False,
                          snd st @ [WarnLog affectedFiles reviewRequirements count
                                      relevantApprovals])
                   else Inr (fst st,
                          snd st @ [InfoLog (p @ '' review requirements met.'')]))))
      else Inr st)"

fun check_loop ::
    "Reviewers \<Rightarrow> string list \<Rightarrow> string list \<Rightarrow> string list \<Rightarrow> bool \<times> log_entry list
      \<Rightarrow> error + bool \<times> log_entry list" where
  "check_loop reviewersConfig modifiedFilepaths approvals [] st = Inr st"
| "check_loop reviewersConfig modifiedFilepaths approvals (p # ps) st =
     (case check_body reviewersConfig modifiedFilepaths approvals p st of
        Inl e \<Rightarrow> Inl e
      | Inr st' \<Rightarrow> check_loop reviewersConfig modifiedFilepaths approvals ps st')"

definition check ::
    "Reviewers \<Rightarrow> string list \<Rightarrow> string list \<Rightarrow> error + bool \<times> log_entry list" where
  "check reviewersConfig modifiedFilepaths approvals =
     check_loop reviewersConfig modifiedFilepaths approvals
       (map fst (reviewers reviewersConfig)) (True, [])"

section \<open>Override evaluation\<close>

text \<open>
  The regular-expression engine is a parameter: \<open>RegExp_new pattern\<close> is the result of
  \<open>new RegExp(pattern)\<close>, either the \<open>SyntaxError\<close> thrown for an invalid pattern or the
  compiled expression, given by its \<open>test\<close> method. (Without flags \<open>test\<close> keeps no state
  between calls.)
\<close>

type_synonym RegExp = "string \<Rightarrow> bool"

definition RegExp_test ::
    "(string \<Rightarrow> error + RegExp) \<Rightarrow> string \<Rightarrow> string \<Rightarrow> error + bool" where
  "RegExp_test RegExp_new pattern modifiedFile =
     (case RegExp_new pattern of Inl e \<Rightarrow> Inl e | Inr re \<Rightarrow> Inr (re modifiedFile))"

text \<open>The two clauses of an override entry, as the callback of \<open>overrides.some\<close> tests them.\<close>

definition modifiedByUsers_clause :: "string list \<Rightarrow> string option list \<Rightarrow> bool" where
  "modifiedByUsers_clause allowed modifiedByUsers =
     (let testSet = new_Set allowed in
      list_all (\<lambda>user. case user of None \<Rightarrow> False | Some u \<Rightarrow> Set_has testSet u)
        modifiedByUsers)"

definition modifiedFileRegExs_clause ::
    "(string \<Rightarrow> error + RegExp) \<Rightarrow> string list \<Rightarrow> string list \<Rightarrow> error + bool" where
  "modifiedFileRegExs_clause RegExp_new patterns modifiedFilePaths =
     everyE (\<lambda>modifiedFile.
        someE (\<lambda>pattern. RegExp_test RegExp_new pattern modifiedFile) patterns)
       modifiedFilePaths"

text \<open>The callback: \<open>maybe && e\<close> does not evaluate \<open>e\<close> when \<open>maybe\<close> is false.\<close>

definition criteria_satisfied ::
    "(string \<Rightarrow> error + RegExp) \<Rightarrow> string list \<Rightarrow> string option list \<Rightarrow> OverrideCriteria
      \<Rightarrow> error + bool" where
  "criteria_satisfied RegExp_new modifiedFilePaths modifiedByUsers crit =
     (let maybe = True;
          maybe = (case onlyModifiedByUsers crit of
                     None \<Rightarrow> maybe
                   | Some allowed \<Rightarrow> maybe \<and> modifiedByUsers_clause allowed modifiedByUsers)
      in case onlyModifiedFileRegExs crit of
           None \<Rightarrow> Inr maybe
         | Some patterns \<Rightarrow>
             if maybe then modifiedFileRegExs_clause RegExp_new patterns modifiedFilePaths
             else Inr False)"

definition checkOverride ::
    "(string \<Rightarrow> error + RegExp) \<Rightarrow> OverrideCriteria list \<Rightarrow> string list \<Rightarrow> string option list
      \<Rightarrow> error + bool" where
  "checkOverride RegExp_new overrides' modifiedFilePaths modifiedByUsers =
     someE (criteria_satisfied RegExp_new modifiedFilePaths modifiedByUsers) overrides'"

section \<open>Approval derivation\<close>

text \<open>
  A review as \<open>getApprovals\<close> reads it: the login of \<open>review.user\<close> (\<open>None\<close> when the user
  is \<open>null\<close>) and the state. The function is modelled on the list the request returns.
\<close>

record review =
  user_login :: "string option"
  state :: string

text \<open>
  The order in which \<open>for (k in o)\<close> lists the keys of an object: first the keys that are
  array indices (canonical decimal numerals below 4294967295) in ascending
  numeric order, then the other keys in the order of their creation.
\<close>

definition is_digit :: "char \<Rightarrow> bool" where
  "is_digit c = (c \<in> set ''0123456789'')"

text \<open>The value of a digit is its position in \<open>0123456789\<close>.\<close>

definition digit_val :: "char \<Rightarrow> nat" where
  "digit_val c = length (takeWhile (\<lambda>d. d \<noteq> c) ''0123456789'')"

definition decimal_value :: "string \<Rightarrow> nat" where
  "decimal_value k = foldl (\<lambda>n c. 10 * n + digit_val c) 0 k"

definition is_array_index :: "string \<Rightarrow> bool" where
  "is_array_index k =
     (case k of
        [] \<Rightarrow> False
      | c # cs \<Rightarrow> list_all is_digit k \<and> (c \<noteq> CHR ''0'' \<or> cs = []) \<and>
          decimal_value k < 4294967295)"

definition index_before :: "string \<Rightarrow> string \<Rightarrow> bool" where
  "index_before k' k = (is_array_index k' \<and> decimal_value k' < decimal_value k)"

text \<open>
  The assignment \<open>o[k] = v\<close> of a string \<open>v\<close> to a plain object. For the key
  \<open>__proto__\<close> it runs the inherited setter, which ignores a value that is not an object:
  no property is stored. An existing property keeps its place and gets the value. A new
  property takes its place in the enumeration order: an array index goes after the smaller
  array indices, any other key goes last.
\<close>

definition obj_insert :: "'v obj \<Rightarrow> string \<Rightarrow> 'v \<Rightarrow> 'v obj" where
  "obj_insert kvs k v =
     (if is_array_index k
      then takeWhile (\<lambda>kv. index_before (fst kv) k) kvs @ (k, v)
             # dropWhile (\<lambda>kv. index_before (fst kv) k) kvs
      else kvs @ [(k, v)])"

definition obj_set :: "'v obj \<Rightarrow> string \<Rightarrow> 'v \<Rightarrow> 'v obj" where
  "obj_set kvs k v =
     (if k = ''__proto__'' then kvs
      else if k \<in> set (map fst kvs)
      then map (\<lambda>kv. if fst kv = k then (k, v) else kv) kvs
      else obj_insert kvs k v)"

definition record_review :: "string obj \<Rightarrow> review \<Rightarrow> string obj" where
  "record_review reviewStatus r =
     (case user_login r of
        None \<Rightarrow> reviewStatus
      | Some login \<Rightarrow>
          if state r \<noteq> ''COMMENTED'' then obj_set reviewStatus login (state r)
          else reviewStatus)"

definition getApprovals :: "review list \<Rightarrow> string list" where
  "getApprovals prReviews =
     (let reviewStatus = foldl record_review [] prReviews in
      filter (\<lambda>login. map_of reviewStatus login = Some ''APPROVED'')
        (map fst reviewStatus))"

section \<open>The decision of \<open>run\<close>\<close>

text \<open>
  \<open>run\<close> from the call of \<open>check\<close> on, given the policy and the three lists it has
  fetched. \<open>Approved\<close> is the path that reaches \<open>// pass\<close> (an approving review is posted
  when \<open>post-review\<close> is set); \<open>MissingApprovals\<close> is the early return (a review requesting
  changes is posted, or \<open>setFailed\<close> is called); \<open>Failed e\<close> is the \<open>catch\<close> block, entered
  when \<open>check\<close> or \<open>checkOverride\<close> has thrown. The requests themselves are not modelled.
\<close>

datatype verdict = Approved | MissingApprovals | Failed error

definition run ::
    "(string \<Rightarrow> error + RegExp) \<Rightarrow> Reviewers \<Rightarrow> string list \<Rightarrow> string list
      \<Rightarrow> string option list \<Rightarrow> verdict" where
  "run RegExp_new reviewersConfig modifiedFilepaths approvals committers =
     (case check reviewersConfig modifiedFilepaths approvals of
        Inl e \<Rightarrow> Failed e
      | Inr (approved, log) \<Rightarrow>
          if \<not> approved then
            (case (case overrides reviewersConfig of
                     None \<Rightarrow> Inr False
                   | Some overrides' \<Rightarrow>
                       checkOverride RegExp_new overrides' modifiedFilepaths committers) of
               Inl e \<Rightarrow> Failed e
             | Inr override \<Rightarrow> if \<not> override then MissingApprovals else Approved)
          else Approved)"

section \<open>Example policies\<close>

text \<open>The rule and the policy of scenario A: one approval by alice or bob for \<open>src/\<close>.\<close>

definition rule_src :: ReviewerConfiguration where
  "rule_src = \<lparr>conf_description = None, conf_teams = None,
      conf_users = Some [''alice'', ''bob''], requiredApproverCount = 1\<rparr>"

definition policy_A :: Reviewers where
  "policy_A = \<lparr>teams = None, reviewers = [(''src/'', rule_src)], overrides = None\<rparr>"

text \<open>Scenario E: the rule for \<open>src/\<close> names a team that the policy does not define.\<close>

definition rule_core :: ReviewerConfiguration where
  "rule_core = \<lparr>conf_description = None, conf_teams = Some [''core-team''],
      conf_users = None, requiredApproverCount = 1\<rparr>"

definition policy_E :: Reviewers where
  "policy_E = \<lparr>teams = None, reviewers = [(''src/'', rule_core)], overrides = None\<rparr>"

text \<open>A rule that repeats a user and a team, and two teams that share a member.\<close>

definition rule_dup :: ReviewerConfiguration where
  "rule_dup = \<lparr>conf_description = None, conf_teams = Some [''core'', ''dev'', ''core''],
      conf_users = Some [''alice'', ''bob'', ''alice''], requiredApproverCount = 2\<rparr>"

definition teams_two :: "TeamConfiguration obj" where
  "teams_two =
     [(''core'', \<lparr>team_description = None, team_users = [''bob'', ''carol'']\<rparr>),
      (''dev'', \<lparr>team_description = None, team_users = [''carol'', ''dave'']\<rparr>)]"

text \<open>A rule that asks for no approval, alone in a policy.\<close>

definition rule_zero :: ReviewerConfiguration where
  "rule_zero = \<lparr>conf_description = None, conf_teams = None,
      conf_users = Some [''alice''], requiredApproverCount = 0\<rparr>"

definition policy_zero :: Reviewers where
  "policy_zero = \<lparr>teams = None, reviewers = [(''docs/'', rule_zero)], overrides = None\<rparr>"

text \<open>The same with a team that the policy does not define.\<close>

definition rule_zero_ghost :: ReviewerConfiguration where
  "rule_zero_ghost = \<lparr>conf_description = None, conf_teams = Some [''ghosts''],
      conf_users = Some [''alice''], requiredApproverCount = 0\<rparr>"

definition policy_zero_ghost :: Reviewers where
  "policy_zero_ghost =
     \<lparr>teams = None, reviewers = [(''docs/'', rule_zero_ghost)], overrides = None\<rparr>"

text \<open>Override entries: only commits by \<open>bot\<close> (scenario C); only files under \<open>docs/\<close>
  (scenario D); an entry without clauses; an entry whose pattern is not a regular
  expression; an entry with both clauses; an entry with both clauses whose pattern is not
  a regular expression.\<close>

definition override_bot :: OverrideCriteria where
  "override_bot = \<lparr>crit_description = None, onlyModifiedByUsers = Some [''bot''],
      onlyModifiedFileRegExs = None\<rparr>"

definition override_docs :: OverrideCriteria where
  "override_docs = \<lparr>crit_description = None, onlyModifiedByUsers = None,
      onlyModifiedFileRegExs = Some [''^docs/'']\<rparr>"

definition override_any :: OverrideCriteria where
  "override_any = \<lparr>crit_description = None, onlyModifiedByUsers = None,
      onlyModifiedFileRegExs = None\<rparr>"

definition override_paren :: OverrideCriteria where
  "override_paren = \<lparr>crit_description = None, onlyModifiedByUsers = None,
      onlyModifiedFileRegExs = Some [''('']\<rparr>"

definition override_both :: OverrideCriteria where
  "override_both = \<lparr>crit_description = None, onlyModifiedByUsers = Some [''bot''],
      onlyModifiedFileRegExs = Some [''^docs/'']\<rparr>"

definition override_bot_paren :: OverrideCriteria where
  "override_bot_paren = \<lparr>crit_description = None, onlyModifiedByUsers = Some [''bot''],
      onlyModifiedFileRegExs = Some [''('']\<rparr>"

definition policy_C :: Reviewers where
  "policy_C = \<lparr>teams = None, reviewers = [(''src/'', rule_src)],
      overrides = Some [override_bot]\<rparr>"

text \<open>
  A regular-expression engine for the examples, which use it on two patterns only. On
  both it does what \<open>RegExp\<close> does: \<open>^docs/\<close> matches the strings that begin with
  \<open>docs/\<close>, and \<open>(\<close>, an unterminated group, is rejected by the constructor.
\<close>

definition example_RegExp :: "string \<Rightarrow> error + RegExp" where
  "example_RegExp pattern =
     (if pattern = ''^docs/'' then Inr (\<lambda>s. prefix ''docs/'' s) else Inl SyntaxError)"

text \<open>Reviews: three reviewers in chronological order, and a review without a user.\<close>

definition review_by :: "string \<Rightarrow> string \<Rightarrow> review" where
  "review_by login st = \<lparr>user_login = Some login, state = st\<rparr>"

definition reviews_example :: "review list" where
  "reviews_example =
     [review_by ''alice'' ''APPROVED'',
      review_by ''bob'' ''APPROVED'',
      review_by ''alice'' ''CHANGES_REQUESTED'',
      review_by ''bob'' ''COMMENTED'',
      review_by ''carol'' ''CHANGES_REQUESTED'',
      review_by ''carol'' ''APPROVED'']"

definition review_ghost :: review where
  "review_ghost = \<lparr>user_login = None, state = ''APPROVED''\<rparr>"

section \<open>Notions used in the statements\<close>

text \<open>
  A prefix is affected when some modified file starts with it. For an affected prefix,
  \<open>rule_resolves\<close> says that its rule is there and its approver set can be computed, and
  \<open>rule_met\<close> that moreover enough of the approvals are in that set. Both hold of a prefix
  that is not affected.
\<close>

definition affected :: "string list \<Rightarrow> string \<Rightarrow> bool" where
  "affected modifiedFilepaths p = (\<exists>file \<in> set modifiedFilepaths. startsWith file p)"

definition rule_resolves :: "Reviewers \<Rightarrow> string list \<Rightarrow> string \<Rightarrow> bool" where
  "rule_resolves cfg files p =
     (affected files p \<longrightarrow>
        (\<exists>rule S. map_of (reviewers cfg) p = Some rule \<and>
           getPossibleApprovers rule (or_empty (teams cfg)) = Inr S))"

definition rule_met :: "Reviewers \<Rightarrow> string list \<Rightarrow> string list \<Rightarrow> string \<Rightarrow> bool" where
  "rule_met cfg files approvals p =
     (affected files p \<longrightarrow>
        (\<exists>rule S. map_of (reviewers cfg) p = Some rule \<and>
           getPossibleApprovers rule (or_empty (teams cfg)) = Inr S \<and>
           requiredApproverCount rule \<le> int (length (filter (Set_has S) approvals))))"

text \<open>
  The clauses of an override entry in the words of the specification: every committer is
  defined and among the allowed users; every modified file path is matched by one of the
  patterns, where a pattern matches when it compiles and its expression tests true. An
  entry is satisfied when each clause it has holds. \<open>patterns_valid\<close> says that every
  pattern of every entry is accepted by the \<open>RegExp\<close> constructor.
\<close>

definition users_clause_holds :: "string list \<Rightarrow> string option list \<Rightarrow> bool" where
  "users_clause_holds allowed committers =
     (\<forall>c \<in> set committers. \<exists>u. c = Some u \<and> u \<in> set allowed)"

definition matches :: "(string \<Rightarrow> error + RegExp) \<Rightarrow> string \<Rightarrow> string \<Rightarrow> bool" where
  "matches RegExp_new pattern file = (\<exists>re. RegExp_new pattern = Inr re \<and> re file)"

definition regexs_clause_holds ::
    "(string \<Rightarrow> error + RegExp) \<Rightarrow> string list \<Rightarrow> string list \<Rightarrow> bool" where
  "regexs_clause_holds RegExp_new patterns files =
     (\<forall>file \<in> set files. \<exists>pattern \<in> set patterns. matches RegExp_new pattern file)"

definition entry_satisfied ::
    "(string \<Rightarrow> error + RegExp) \<Rightarrow> string list \<Rightarrow> string option list \<Rightarrow> OverrideCriteria
      \<Rightarrow> bool" where
  "entry_satisfied RegExp_new files committers crit =
     ((\<forall>allowed. onlyModifiedByUsers crit = Some allowed \<longrightarrow>
         users_clause_holds allowed committers) \<and>
      (\<forall>patterns. onlyModifiedFileRegExs crit = Some patterns \<longrightarrow>
         regexs_clause_holds RegExp_new patterns files))"

definition patterns_valid :: "(string \<Rightarrow> error + RegExp) \<Rightarrow> OverrideCriteria list \<Rightarrow> bool" where
  "patterns_valid RegExp_new overrides' =
     (\<forall>crit \<in> set overrides'. \<forall>patterns. onlyModifiedFileRegExs crit = Some patterns \<longrightarrow>
        (\<forall>pattern \<in> set patterns. \<exists>re. RegExp_new pattern = Inr re))"

text \<open>
  When an entry throws. The patterns are compiled in order for each file, until one matches:
  a file is hit when a pattern matches it and all patterns before that one are valid; a file
  throws when a pattern is invalid and all patterns before it are valid and do not match
  the file. The files are tested in order, until one is not matched: an entry throws when
  its \<open>onlyModifiedByUsers\<close> clause is absent or holds and some file throws after files
  that are all hit.
\<close>

definition file_hit :: "(string \<Rightarrow> error + RegExp) \<Rightarrow> string list \<Rightarrow> string \<Rightarrow> bool" where
  "file_hit RegExp_new patterns path =
     (\<exists>ps1 p ps2. patterns = ps1 @ p # ps2 \<and> matches RegExp_new p path \<and>
        (\<forall>q \<in> set ps1. \<exists>re. RegExp_new q = Inr re))"

definition file_throws ::
    "(string \<Rightarrow> error + RegExp) \<Rightarrow> string list \<Rightarrow> string \<Rightarrow> error \<Rightarrow> bool" where
  "file_throws RegExp_new patterns path e =
     (\<exists>ps1 p ps2. patterns = ps1 @ p # ps2 \<and> RegExp_new p = Inl e \<and>
        (\<forall>q \<in> set ps1. \<exists>re. RegExp_new q = Inr re \<and> \<not> re path))"

definition entry_throws ::
    "(string \<Rightarrow> error + RegExp) \<Rightarrow> string list \<Rightarrow> string option list \<Rightarrow> OverrideCriteria
      \<Rightarrow> error \<Rightarrow> bool" where
  "entry_throws RegExp_new files committers crit e =
     ((\<forall>allowed. onlyModifiedByUsers crit = Some allowed \<longrightarrow>
         users_clause_holds allowed committers) \<and>
      (\<exists>patterns fs1 path fs2. onlyModifiedFileRegExs crit = Some patterns \<and>
         files = fs1 @ path # fs2 \<and> (\<forall>g \<in> set fs1. file_hit RegExp_new patterns g) \<and>
         file_throws RegExp_new patterns path e))"

section \<open>Properties of the built-ins\<close>

lemma set_foldl_Set_add: "set (foldl Set_add acc xs) = set acc \<union> set xs"
  by (induction xs arbitrary: acc) (auto simp: Set_add_def)

lemma distinct_foldl_Set_add: "distinct acc \<Longrightarrow> distinct (foldl Set_add acc xs)"
  by (induction xs arbitrary: acc) (auto simp: Set_add_def)

lemma set_new_Set: "set (new_Set xs) = set xs"
  by (simp add: new_Set_def set_foldl_Set_add)

lemma distinct_new_Set: "distinct (new_Set xs)"
  by (simp add: new_Set_def distinct_foldl_Set_add)

lemma Set_has_new_Set: "Set_has (new_Set xs) x = (x \<in> set xs)"
  by (simp add: Set_has_def set_new_Set)

lemma foldl_append_concat: "foldl (\<lambda>left right. left @ right) acc xss = acc @ concat xss"
  by (induction xss arbitrary: acc) auto

section \<open>Properties of approver-set resolution\<close>

lemma team_members_Inr:
  "team_members T team = Inr us \<longleftrightarrow> (\<exists>t. map_of T team = Some t \<and> us = team_users t)"
  by (auto simp: team_members_def split: option.splits)

lemma team_members_Inl:
  "team_members T team = Inl e \<longleftrightarrow> e = TypeError \<and> map_of T team = None"
  by (auto simp: team_members_def split: option.splits)

lemma mapE_team_members_Inr:
  "mapE (team_members T) ts = Inr ls \<Longrightarrow>
     set (concat ls) =
       {u. \<exists>team t. team \<in> set ts \<and> map_of T team = Some t \<and> u \<in> set (team_users t)}"
proof (induction ts arbitrary: ls)
  case Nil
  then show ?case by simp
next
  case (Cons a ts)
  from Cons.prems obtain us ls' where a: "team_members T a = Inr us"
    and ts: "mapE (team_members T) ts = Inr ls'" and ls: "ls = us # ls'"
    by (auto split: sum.splits)
  from a obtain t where t: "map_of T a = Some t" "us = team_users t"
    by (auto simp: team_members_Inr)
  have "set (concat ls') =
      {u. \<exists>team t. team \<in> set ts \<and> map_of T team = Some t \<and> u \<in> set (team_users t)}"
    by (rule Cons.IH [OF ts])
  with t ls show ?case by auto
qed

lemma mapE_team_members_Inl:
  "mapE (team_members T) ts = Inl e \<Longrightarrow>
     e = TypeError \<and> (\<exists>team \<in> set ts. map_of T team = None)"
  by (induction ts) (auto simp: team_members_Inl split: sum.splits)

lemma mapE_team_members_missing:
  "team \<in> set ts \<Longrightarrow> map_of T team = None \<Longrightarrow> mapE (team_members T) ts = Inl TypeError"
proof (induction ts)
  case Nil
  then show ?case by simp
next
  case (Cons a ts)
  show ?case
  proof (cases "team_members T a")
    case (Inl e)
    then have "e = TypeError" by (simp add: team_members_Inl)
    with Inl show ?thesis by simp
  next
    case (Inr us)
    then have "team \<noteq> a" using Cons.prems(2) by (auto simp: team_members_Inr)
    with Cons have "mapE (team_members T) ts = Inl TypeError" by simp
    with Inr show ?thesis by simp
  qed
qed

lemma getPossibleApprovers_cases:
  "(getPossibleApprovers conf T = Inl TypeError \<and>
      (\<exists>team \<in> set (or_empty (conf_teams conf)). map_of T team = None))
   \<or> (\<exists>S. getPossibleApprovers conf T = Inr S \<and> distinct S \<and>
        (\<forall>team \<in> set (or_empty (conf_teams conf)). map_of T team \<noteq> None) \<and>
        set S = set (or_empty (conf_users conf)) \<union>
          {u. \<exists>team t. team \<in> set (or_empty (conf_teams conf)) \<and> map_of T team = Some t
                \<and> u \<in> set (team_users t)})"
proof (cases "mapE (team_members T) (or_empty (conf_teams conf))")
  case (Inl e)
  with mapE_team_members_Inl [OF Inl] show ?thesis
    by (simp add: getPossibleApprovers_def)
next
  case (Inr ls)
  have "\<forall>team \<in> set (or_empty (conf_teams conf)). map_of T team \<noteq> None"
    using Inr mapE_team_members_missing [of _ "or_empty (conf_teams conf)" T] by fastforce
  with Inr mapE_team_members_Inr [OF Inr] show ?thesis
    by (simp add: getPossibleApprovers_def Let_def foldl_append_concat set_new_Set
        distinct_new_Set)
qed

section \<open>Properties of the loop of \<open>check\<close>\<close>

lemma affected_filter:
  "(0 < length (filter (\<lambda>file. startsWith file p) files)) = affected files p"
  by (auto simp: affected_def filter_empty_conv)

lemma check_body_Inr_iff:
  "(\<exists>st'. check_body cfg files approvals p st = Inr st') \<longleftrightarrow> rule_resolves cfg files p"
  unfolding check_body_def rule_resolves_def Let_def affected_filter
  by (auto split: option.splits sum.splits)

lemma check_body_fst:
  "check_body cfg files approvals p st = Inr st' \<Longrightarrow>
     fst st' = (fst st \<and> rule_met cfg files approvals p)"
  unfolding check_body_def rule_met_def Let_def affected_filter
  by (auto split: option.splits sum.splits if_splits)

lemma check_loop_Inr_iff:
  "(\<exists>st'. check_loop cfg files approvals ps st = Inr st') \<longleftrightarrow>
     (\<forall>p \<in> set ps. rule_resolves cfg files p)"
proof (induction ps arbitrary: st)
  case Nil
  show ?case by simp
next
  case (Cons p ps)
  show ?case
  proof (cases "check_body cfg files approvals p st")
    case (Inl e)
    then have "\<not> rule_resolves cfg files p"
      using check_body_Inr_iff [of cfg files approvals p st] by simp
    with Inl show ?thesis by simp
  next
    case (Inr st1)
    then have "rule_resolves cfg files p"
      using check_body_Inr_iff [of cfg files approvals p st] by auto
    with Inr Cons.IH [of st1] show ?thesis by simp
  qed
qed

lemma check_loop_fst:
  "check_loop cfg files approvals ps st = Inr st' \<Longrightarrow>
     fst st' = (fst st \<and> (\<forall>p \<in> set ps. rule_met cfg files approvals p))"
proof (induction ps arbitrary: st)
  case Nil
  then show ?case by simp
next
  case (Cons p ps)
  from Cons.prems obtain st1 where b: "check_body cfg files approvals p st = Inr st1"
    and l: "check_loop cfg files approvals ps st1 = Inr st'"
    by (auto split: sum.splits)
  from check_body_fst [OF b] Cons.IH [OF l] show ?case by auto
qed

lemma rule_met_resolves: "rule_met cfg files approvals p \<Longrightarrow> rule_resolves cfg files p"
  by (auto simp: rule_met_def rule_resolves_def)

lemma check_True_iff_met:
  "(\<exists>log. check cfg files approvals = Inr (True, log)) \<longleftrightarrow>
     (\<forall>p \<in> set (map fst (reviewers cfg)). rule_met cfg files approvals p)"
proof
  assume "\<exists>log. check cfg files approvals = Inr (True, log)"
  then obtain log where
    "check_loop cfg files approvals (map fst (reviewers cfg)) (True, []) = Inr (True, log)"
    by (auto simp: check_def)
  from check_loop_fst [OF this]
  show "\<forall>p \<in> set (map fst (reviewers cfg)). rule_met cfg files approvals p"
    by simp
next
  assume met: "\<forall>p \<in> set (map fst (reviewers cfg)). rule_met cfg files approvals p"
  then have "\<forall>p \<in> set (map fst (reviewers cfg)). rule_resolves cfg files p"
    by (blast intro: rule_met_resolves)
  then obtain st' where
    l: "check_loop cfg files approvals (map fst (reviewers cfg)) (True, []) = Inr st'"
    using check_loop_Inr_iff [of cfg files approvals "map fst (reviewers cfg)" "(True, [])"]
    by blast
  from check_loop_fst [OF l] met have "fst st' = True" by simp
  with l show "\<exists>log. check cfg files approvals = Inr (True, log)"
    by (cases st') (auto simp: check_def)
qed

lemma getPossibleApprovers_Inl: "getPossibleApprovers conf T = Inl e \<Longrightarrow> e = TypeError"
  using getPossibleApprovers_cases [of conf T] by auto

lemma check_body_Inl: "check_body cfg files approvals p st = Inl e \<Longrightarrow> e = TypeError"
  unfolding check_body_def Let_def
  by (auto split: option.splits sum.splits if_splits dest: getPossibleApprovers_Inl)

lemma check_loop_Inl: "check_loop cfg files approvals ps st = Inl e \<Longrightarrow> e = TypeError"
  by (induction ps arbitrary: st) (auto split: sum.splits dest: check_body_Inl)

lemma check_raises_iff:
  "check cfg files approvals = Inl TypeError \<longleftrightarrow>
     (\<exists>p \<in> set (map fst (reviewers cfg)). \<not> rule_resolves cfg files p)"
proof -
  let ?l = "check_loop cfg files approvals (map fst (reviewers cfg)) (True, [])"
  have "(\<exists>st'. ?l = Inr st') \<longleftrightarrow>
      (\<forall>p \<in> set (map fst (reviewers cfg)). rule_resolves cfg files p)"
    by (rule check_loop_Inr_iff)
  moreover have "?l = Inl TypeError \<longleftrightarrow> \<not> (\<exists>st'. ?l = Inr st')"
    by (cases ?l) (auto dest: check_loop_Inl)
  ultimately show ?thesis by (simp add: check_def)
qed

lemma check_False_iff_met:
  "(\<exists>log. check cfg files approvals = Inr (False, log)) \<longleftrightarrow>
     (\<forall>p \<in> set (map fst (reviewers cfg)). rule_resolves cfg files p) \<and>
     (\<exists>p \<in> set (map fst (reviewers cfg)). \<not> rule_met cfg files approvals p)"
  (is "?L \<longleftrightarrow> ?R")
proof -
  let ?l = "check_loop cfg files approvals (map fst (reviewers cfg)) (True, [])"
  have r: "(\<exists>st'. ?l = Inr st') \<longleftrightarrow>
      (\<forall>p \<in> set (map fst (reviewers cfg)). rule_resolves cfg files p)"
    by (rule check_loop_Inr_iff)
  have f: "\<And>st'. ?l = Inr st' \<Longrightarrow>
      fst st' = (\<forall>p \<in> set (map fst (reviewers cfg)). rule_met cfg files approvals p)"
    using check_loop_fst [of cfg files approvals "map fst (reviewers cfg)" "(True, [])"]
    by simp
  show ?thesis
  proof
    assume ?L
    then obtain log where l: "?l = Inr (False, log)" by (auto simp: check_def)
    from f [OF l] r l show ?R by auto
  next
    assume a: ?R
    with r obtain st' where l: "?l = Inr st'" by blast
    from f [OF l] a have "fst st' = False" by blast
    with l show ?L by (cases st') (auto simp: check_def)
  qed
qed

lemma keys_map_of: "p \<in> set (map fst kvs) \<longleftrightarrow> (\<exists>v. map_of kvs p = Some v)"
  by (metis map_of_eq_None_iff not_Some_eq set_map)

lemma check_body_zero:
  assumes "map_of (reviewers cfg) p = Some rule" and "requiredApproverCount rule = 0"
    and "affected files p"
  shows "check_body cfg files approvals p st =
     (case getPossibleApprovers rule (or_empty (teams cfg)) of
        Inl e \<Rightarrow> Inl e
      | Inr S \<Rightarrow> Inr (fst st, snd st @ [InfoLog (p @ '' review requirements met.'')]))"
  using assms unfolding check_body_def Let_def affected_filter
  by (simp split: sum.splits)

section \<open>Evaluation of the examples\<close>

lemmas eval_defs = check_def check_body_def getPossibleApprovers_def team_members_def
  or_empty_def new_Set_def Set_add_def Set_has_def startsWith_def Let_def

section \<open>The claims about \<open>check\<close>\<close>

text \<open>
  Claim C1. \<open>check\<close> returns true if and only if every rule of the \<open>reviewers\<close> mapping
  whose prefix is a literal string prefix of at least one modified file path has at least
  \<open>requiredApproverCount\<close> approvals in its resolved approver set; a rule whose prefix
  matches no modified file puts no condition on the result. The last conjunct says what
  \<open>startsWith\<close> is: the file path is the prefix followed by some rest.
\<close>

theorem check_true_iff:
  "((\<exists>log. check reviewersConfig modifiedFilepaths approvals = Inr (True, log)) \<longleftrightarrow>
    (\<forall>p rule.
       map_of (reviewers reviewersConfig) p = Some rule \<and>
       (\<exists>file \<in> set modifiedFilepaths. startsWith file p) \<longrightarrow>
       (\<exists>possibleApprovers.
          getPossibleApprovers rule (or_empty (teams reviewersConfig)) = Inr possibleApprovers \<and>
          requiredApproverCount rule
            \<le> int (length (filter (Set_has possibleApprovers) approvals)))))
   \<and> (startsWith file p \<longleftrightarrow> (\<exists>rest. file = p @ rest))"
proof
  let ?L = "\<exists>log. check reviewersConfig modifiedFilepaths approvals = Inr (True, log)"
  let ?M = "\<forall>p \<in> set (map fst (reviewers reviewersConfig)).
      rule_met reviewersConfig modifiedFilepaths approvals p"
  let ?R = "\<forall>p rule.
       map_of (reviewers reviewersConfig) p = Some rule \<and>
       (\<exists>file \<in> set modifiedFilepaths. startsWith file p) \<longrightarrow>
       (\<exists>possibleApprovers.
          getPossibleApprovers rule (or_empty (teams reviewersConfig)) = Inr possibleApprovers \<and>
          requiredApproverCount rule
            \<le> int (length (filter (Set_has possibleApprovers) approvals)))"
  have "?L \<longleftrightarrow> ?M" by (rule check_True_iff_met)
  also have "?M \<longleftrightarrow> ?R"
  proof
    assume m: ?M
    show ?R
    proof (intro allI impI)
      fix p rule
      assume h: "map_of (reviewers reviewersConfig) p = Some rule \<and>
        (\<exists>file \<in> set modifiedFilepaths. startsWith file p)"
      then have "p \<in> set (map fst (reviewers reviewersConfig))"
        using keys_map_of [of p "reviewers reviewersConfig"] by blast
      with m have "rule_met reviewersConfig modifiedFilepaths approvals p" by blast
      with h show "\<exists>possibleApprovers.
          getPossibleApprovers rule (or_empty (teams reviewersConfig)) = Inr possibleApprovers \<and>
          requiredApproverCount rule
            \<le> int (length (filter (Set_has possibleApprovers) approvals))"
        by (auto simp: rule_met_def affected_def)
    qed
  next
    assume r: ?R
    show ?M
    proof
      fix p
      assume "p \<in> set (map fst (reviewers reviewersConfig))"
      then obtain rule where "map_of (reviewers reviewersConfig) p = Some rule"
        using keys_map_of [of p "reviewers reviewersConfig"] by blast
      with r show "rule_met reviewersConfig modifiedFilepaths approvals p"
        unfolding rule_met_def affected_def by blast
    qed
  qed
  finally show "?L \<longleftrightarrow> ?R" .
next
  show "startsWith file p \<longleftrightarrow> (\<exists>rest. file = p @ rest)"
    by (simp add: startsWith_def prefix_def)
qed

theorem check_true_iff_witness:
  "map_of (reviewers policy_A) ''src/'' = Some rule_src \<and>
   (\<exists>file \<in> set [''src/foo.ts'']. startsWith file ''src/'') \<and>
   (\<exists>possibleApprovers.
      getPossibleApprovers rule_src (or_empty (teams policy_A)) = Inr possibleApprovers \<and>
      requiredApproverCount rule_src
        \<le> int (length (filter (Set_has possibleApprovers) [''bob'']))) \<and>
   check policy_A [''src/foo.ts''] [''bob'']
     = Inr (True, [InfoLog ''src/ review requirements met.'']) \<and>
   startsWith ''src/foo'' ''src/f''"
proof -
  have c: "check policy_A [''src/foo.ts''] [''bob'']
     = Inr (True, [InfoLog ''src/ review requirements met.''])"
    by (simp add: eval_defs policy_A_def rule_src_def)
  have h: "map_of (reviewers policy_A) ''src/'' = Some rule_src \<and>
   (\<exists>file \<in> set [''src/foo.ts'']. startsWith file ''src/'')"
    by (simp add: policy_A_def startsWith_def)
  from c have "\<exists>log. check policy_A [''src/foo.ts''] [''bob''] = Inr (True, log)" by blast
  with check_true_iff [of policy_A "[''src/foo.ts'']" "[''bob'']" "''src/foo''" "''src/f''"] h
  have "\<exists>possibleApprovers.
      getPossibleApprovers rule_src (or_empty (teams policy_A)) = Inr possibleApprovers \<and>
      requiredApproverCount rule_src
        \<le> int (length (filter (Set_has possibleApprovers) [''bob'']))"
    by blast
  moreover have "startsWith ''src/foo'' ''src/f''"
    by (simp add: startsWith_def)
  ultimately show ?thesis using c h by blast
qed

text \<open>
  Claim C7. For a policy whose \<open>reviewers\<close> mapping is empty, \<open>check\<close> returns true for
  every list of modified file paths and every list of approvals (and logs nothing).
\<close>

theorem check_no_rules:
  "reviewers reviewersConfig = [] \<Longrightarrow>
     check reviewersConfig modifiedFilepaths approvals = Inr (True, [])"
  by (simp add: check_def)

theorem check_no_rules_witness:
  "reviewers \<lparr>teams = None, reviewers = [], overrides = None\<rparr> = [] \<and>
   check \<lparr>teams = None, reviewers = [], overrides = None\<rparr> [''src/a.ts''] [] = Inr (True, [])"
  using check_no_rules [of "\<lparr>teams = None, reviewers = [], overrides = None\<rparr>"
      "[''src/a.ts'']" "[]"]
  by simp

text \<open>
  Claim C8, as amended. Take a rule with \<open>requiredApproverCount = 0\<close> whose prefix matches
  a modified file. If all the teams it names exist, the rule passes whatever the approvals
  are: the loop body leaves \<open>approved\<close> as it was and logs that the requirements are met.
  If it names a team that does not exist, the loop body and \<open>check\<close> raise the
  \<open>TypeError\<close> of the resolution, whatever the approvals are. In both cases the rule never
  makes \<open>check\<close> return false: when \<open>check\<close> returns false, another rule, with another
  prefix, is affected and lacks approvals.
\<close>

theorem zero_count_rule_passes:
  assumes "map_of (reviewers reviewersConfig) p = Some rule"
    and "requiredApproverCount rule = 0"
    and "\<exists>file \<in> set modifiedFilepaths. startsWith file p"
  shows "((\<forall>team \<in> set (or_empty (conf_teams rule)).
             map_of (or_empty (teams reviewersConfig)) team \<noteq> None) \<longrightarrow>
            check_body reviewersConfig modifiedFilepaths approvals p (approved, log)
              = Inr (approved, log @ [InfoLog (p @ '' review requirements met.'')]))
       \<and> ((\<exists>team \<in> set (or_empty (conf_teams rule)).
             map_of (or_empty (teams reviewersConfig)) team = None) \<longrightarrow>
            check_body reviewersConfig modifiedFilepaths approvals p (approved, log)
              = Inl TypeError \<and>
            check reviewersConfig modifiedFilepaths approvals = Inl TypeError)
       \<and> (\<forall>log'. check reviewersConfig modifiedFilepaths approvals = Inr (False, log') \<longrightarrow>
            (\<exists>p' rule' S'. p' \<noteq> p \<and> map_of (reviewers reviewersConfig) p' = Some rule' \<and>
               (\<exists>file \<in> set modifiedFilepaths. startsWith file p') \<and>
               getPossibleApprovers rule' (or_empty (teams reviewersConfig)) = Inr S' \<and>
               int (length (filter (Set_has S') approvals)) < requiredApproverCount rule'))"
proof (intro conjI allI impI)
  have a: "affected modifiedFilepaths p" using assms(3) by (simp add: affected_def)
  note b = check_body_zero [OF assms(1,2) a, of approvals "(approved, log)"]
  note g = getPossibleApprovers_cases [of rule "or_empty (teams reviewersConfig)"]
  show "check_body reviewersConfig modifiedFilepaths approvals p (approved, log)
      = Inr (approved, log @ [InfoLog (p @ '' review requirements met.'')])"
    if "\<forall>team \<in> set (or_empty (conf_teams rule)).
          map_of (or_empty (teams reviewersConfig)) team \<noteq> None"
  proof -
    from g that obtain S where
      "getPossibleApprovers rule (or_empty (teams reviewersConfig)) = Inr S" by auto
    with b show ?thesis by simp
  qed
  assume m: "\<exists>team \<in> set (or_empty (conf_teams rule)).
      map_of (or_empty (teams reviewersConfig)) team = None"
  with g have gi: "getPossibleApprovers rule (or_empty (teams reviewersConfig)) = Inl TypeError"
    by auto
  with b show "check_body reviewersConfig modifiedFilepaths approvals p (approved, log)
      = Inl TypeError" by simp
  from assms(1) have "p \<in> set (map fst (reviewers reviewersConfig))"
    using keys_map_of [of p "reviewers reviewersConfig"] by blast
  moreover from gi a assms(1) have "\<not> rule_resolves reviewersConfig modifiedFilepaths p"
    by (simp add: rule_resolves_def)
  ultimately show "check reviewersConfig modifiedFilepaths approvals = Inl TypeError"
    using check_raises_iff [of reviewersConfig modifiedFilepaths approvals] by blast
next
  show "\<exists>p' rule' S'. p' \<noteq> p \<and> map_of (reviewers reviewersConfig) p' = Some rule' \<and>
               (\<exists>file \<in> set modifiedFilepaths. startsWith file p') \<and>
               getPossibleApprovers rule' (or_empty (teams reviewersConfig)) = Inr S' \<and>
               int (length (filter (Set_has S') approvals)) < requiredApproverCount rule'"
    if f: "check reviewersConfig modifiedFilepaths approvals = Inr (False, log')" for log'
  proof -
    from f check_False_iff_met [of reviewersConfig modifiedFilepaths approvals]
    obtain p' where p': "rule_resolves reviewersConfig modifiedFilepaths p'"
      "\<not> rule_met reviewersConfig modifiedFilepaths approvals p'"
      by blast
    from p'(2) have aff: "affected modifiedFilepaths p'" by (auto simp: rule_met_def)
    with p'(1) obtain rule' S' where r: "map_of (reviewers reviewersConfig) p' = Some rule'"
      "getPossibleApprovers rule' (or_empty (teams reviewersConfig)) = Inr S'"
      by (auto simp: rule_resolves_def)
    with p'(2) aff
    have lt: "int (length (filter (Set_has S') approvals)) < requiredApproverCount rule'"
      by (auto simp: rule_met_def)
    with r(1) assms(1,2) have "p' \<noteq> p" by auto
    with r lt aff show ?thesis by (auto simp: affected_def)
  qed
qed

theorem zero_count_rule_passes_witness:
  "map_of (reviewers policy_zero) ''docs/'' = Some rule_zero \<and>
   requiredApproverCount rule_zero = 0 \<and>
   (\<exists>file \<in> set [''docs/readme.md'']. startsWith file ''docs/'') \<and>
   or_empty (conf_teams rule_zero) = [] \<and>
   check_body policy_zero [''docs/readme.md''] [] ''docs/'' (True, [])
     = Inr (True, [InfoLog ''docs/ review requirements met.'']) \<and>
   check policy_zero [''docs/readme.md''] []
     = Inr (True, [InfoLog ''docs/ review requirements met.'']) \<and>
   map_of (reviewers policy_zero_ghost) ''docs/'' = Some rule_zero_ghost \<and>
   requiredApproverCount rule_zero_ghost = 0 \<and>
   or_empty (conf_teams rule_zero_ghost) = [''ghosts''] \<and>
   map_of (or_empty (teams policy_zero_ghost)) ''ghosts'' = None \<and>
   check policy_zero_ghost [''docs/readme.md''] [''alice''] = Inl TypeError"
proof -
  have h1: "map_of (reviewers policy_zero) ''docs/'' = Some rule_zero"
    by (simp add: policy_zero_def)
  have h2: "requiredApproverCount rule_zero = 0" by (simp add: rule_zero_def)
  have h3: "\<exists>file \<in> set [''docs/readme.md'']. startsWith file ''docs/''"
    by (simp add: startsWith_def)
  have t: "or_empty (conf_teams rule_zero) = []"
    by (simp add: rule_zero_def or_empty_def)
  then have t': "\<forall>team \<in> set (or_empty (conf_teams rule_zero)).
      map_of (or_empty (teams policy_zero)) team \<noteq> None" by simp
  from zero_count_rule_passes [OF h1 h2 h3, THEN conjunct1, THEN mp, OF t', of "[]" True "[]"]
  have b: "check_body policy_zero [''docs/readme.md''] [] ''docs/'' (True, [])
     = Inr (True, [InfoLog ''docs/ review requirements met.''])"
    by simp
  have c: "check policy_zero [''docs/readme.md''] []
      = Inr (True, [InfoLog ''docs/ review requirements met.''])"
    using b by (simp add: check_def policy_zero_def)
  have g1: "map_of (reviewers policy_zero_ghost) ''docs/'' = Some rule_zero_ghost"
    by (simp add: policy_zero_ghost_def)
  have g2: "requiredApproverCount rule_zero_ghost = 0" by (simp add: rule_zero_ghost_def)
  have gt: "or_empty (conf_teams rule_zero_ghost) = [''ghosts'']"
    by (simp add: rule_zero_ghost_def or_empty_def)
  have gm: "map_of (or_empty (teams policy_zero_ghost)) ''ghosts'' = None"
    by (simp add: policy_zero_ghost_def or_empty_def)
  from gt gm have gm': "\<exists>team \<in> set (or_empty (conf_teams rule_zero_ghost)).
      map_of (or_empty (teams policy_zero_ghost)) team = None" by simp
  from zero_count_rule_passes [OF g1 g2 h3, THEN conjunct2, THEN conjunct1, THEN mp, OF gm',
      of "[''alice'']"]
  have d: "check policy_zero_ghost [''docs/readme.md''] [''alice''] = Inl TypeError"
    by simp
  from h1 h2 h3 t b c g1 g2 gt gm d show ?thesis by blast
qed

text \<open>
  The claim as first stated, that every such rule passes, fails for a rule that names a
  missing team: its evaluation raises before the approvals are counted.
\<close>

theorem zero_count_missing_team_counterexample:
  "map_of (reviewers policy_zero_ghost) ''docs/'' = Some rule_zero_ghost \<and>
   requiredApproverCount rule_zero_ghost = 0 \<and>
   startsWith ''docs/readme.md'' ''docs/'' \<and>
   check_body policy_zero_ghost [''docs/readme.md''] [''alice''] ''docs/'' (True, [])
     = Inl TypeError \<and>
   check policy_zero_ghost [''docs/readme.md''] [''alice''] = Inl TypeError"
  by (simp add: eval_defs policy_zero_ghost_def rule_zero_ghost_def)

section \<open>The claims about approver-set resolution\<close>

text \<open>
  Claim C5. When every team that the rule names exists, \<open>getPossibleApprovers\<close> returns a
  set (no element twice) whose elements are exactly the rule's named users and the members
  of the teams it names; a rule that names the same users and the same teams, in another
  order or several times, has the same approver set.
\<close>

theorem getPossibleApprovers_union:
  assumes "\<forall>team \<in> set (or_empty (conf_teams conf)). map_of teams' team \<noteq> None"
  shows "\<exists>S. getPossibleApprovers conf teams' = Inr S \<and> distinct S \<and>
      set S = set (or_empty (conf_users conf)) \<union>
        {u. \<exists>team t. team \<in> set (or_empty (conf_teams conf)) \<and> map_of teams' team = Some t
              \<and> u \<in> set (team_users t)} \<and>
      (\<forall>conf'. set (or_empty (conf_users conf')) = set (or_empty (conf_users conf)) \<and>
          set (or_empty (conf_teams conf')) = set (or_empty (conf_teams conf)) \<longrightarrow>
          (\<exists>S'. getPossibleApprovers conf' teams' = Inr S' \<and> set S' = set S))"
proof -
  from assms getPossibleApprovers_cases [of conf teams']
  obtain S where S: "getPossibleApprovers conf teams' = Inr S" "distinct S"
    "set S = set (or_empty (conf_users conf)) \<union>
        {u. \<exists>team t. team \<in> set (or_empty (conf_teams conf)) \<and> map_of teams' team = Some t
              \<and> u \<in> set (team_users t)}"
    by auto
  have "\<exists>S'. getPossibleApprovers conf' teams' = Inr S' \<and> set S' = set S"
    if eq: "set (or_empty (conf_users conf')) = set (or_empty (conf_users conf)) \<and>
          set (or_empty (conf_teams conf')) = set (or_empty (conf_teams conf))" for conf'
  proof -
    from eq assms have "\<forall>team \<in> set (or_empty (conf_teams conf')). map_of teams' team \<noteq> None"
      by simp
    with getPossibleApprovers_cases [of conf' teams']
    obtain S' where S': "getPossibleApprovers conf' teams' = Inr S'"
      "set S' = set (or_empty (conf_users conf')) \<union>
        {u. \<exists>team t. team \<in> set (or_empty (conf_teams conf')) \<and> map_of teams' team = Some t
              \<and> u \<in> set (team_users t)}"
      by auto
    from S'(2) eq S(3) have "set S' = set S" by simp
    with S'(1) show ?thesis by blast
  qed
  with S show ?thesis by blast
qed

theorem getPossibleApprovers_union_witness:
  "or_empty (conf_teams rule_dup) = [''core'', ''dev'', ''core''] \<and>
   map_of teams_two ''core'' \<noteq> None \<and> map_of teams_two ''dev'' \<noteq> None \<and>
   getPossibleApprovers rule_dup teams_two = Inr [''alice'', ''bob'', ''carol'', ''dave''] \<and>
   (\<exists>S. getPossibleApprovers rule_dup teams_two = Inr S \<and> distinct S \<and>
      set S = {''alice'', ''bob'', ''carol'', ''dave''})"
proof -
  have h: "\<forall>team \<in> set (or_empty (conf_teams rule_dup)). map_of teams_two team \<noteq> None"
    by (simp add: rule_dup_def teams_two_def or_empty_def)
  have e: "getPossibleApprovers rule_dup teams_two = Inr [''alice'', ''bob'', ''carol'', ''dave'']"
    by (simp add: eval_defs rule_dup_def teams_two_def)
  from getPossibleApprovers_union [OF h] e
  have "distinct [''alice'', ''bob'', ''carol'', ''dave'']" by auto
  moreover have "or_empty (conf_teams rule_dup) = [''core'', ''dev'', ''core'']"
    by (simp add: rule_dup_def or_empty_def)
  moreover have "map_of teams_two ''core'' \<noteq> None \<and> map_of teams_two ''dev'' \<noteq> None"
    by (simp add: teams_two_def)
  ultimately show ?thesis using e by auto
qed

lemma run_check_raises:
  "check cfg files approvals = Inl e \<Longrightarrow> run re cfg files approvals committers = Failed e"
  by (simp add: run_def)

text \<open>
  Claim C3, as amended. For a rule that names a team which the team mapping does not have,
  \<open>getPossibleApprovers\<close> raises a \<open>TypeError\<close> instead of taking the team to be empty.
  When the prefix of such a rule matches a modified file, \<open>check\<close> raises it as well and
  \<open>run\<close> ends in its \<open>catch\<close> block, so that no verdict is produced. (A rule whose prefix
  matches no modified file is not resolved at all.)
\<close>

theorem missing_team_raises:
  assumes "team \<in> set (or_empty (conf_teams rule))" and "map_of teams' team = None"
  shows "getPossibleApprovers rule teams' = Inl TypeError \<and>
     (or_empty (teams reviewersConfig) = teams' \<and>
      map_of (reviewers reviewersConfig) p = Some rule \<and>
      (\<exists>file \<in> set modifiedFilepaths. startsWith file p) \<longrightarrow>
        check reviewersConfig modifiedFilepaths approvals = Inl TypeError \<and>
        run RegExp_new reviewersConfig modifiedFilepaths approvals committers = Failed TypeError)"
proof
  show g: "getPossibleApprovers rule teams' = Inl TypeError"
    using assms getPossibleApprovers_cases [of rule teams'] by auto
  show "or_empty (teams reviewersConfig) = teams' \<and>
      map_of (reviewers reviewersConfig) p = Some rule \<and>
      (\<exists>file \<in> set modifiedFilepaths. startsWith file p) \<longrightarrow>
        check reviewersConfig modifiedFilepaths approvals = Inl TypeError \<and>
        run RegExp_new reviewersConfig modifiedFilepaths approvals committers = Failed TypeError"
  proof
    assume h: "or_empty (teams reviewersConfig) = teams' \<and>
      map_of (reviewers reviewersConfig) p = Some rule \<and>
      (\<exists>file \<in> set modifiedFilepaths. startsWith file p)"
    then have "p \<in> set (map fst (reviewers reviewersConfig))"
      using keys_map_of [of p "reviewers reviewersConfig"] by blast
    moreover from h g have "\<not> rule_resolves reviewersConfig modifiedFilepaths p"
      by (auto simp: rule_resolves_def affected_def)
    ultimately have "check reviewersConfig modifiedFilepaths approvals = Inl TypeError"
      using check_raises_iff [of reviewersConfig modifiedFilepaths approvals] by blast
    then show "check reviewersConfig modifiedFilepaths approvals = Inl TypeError \<and>
        run RegExp_new reviewersConfig modifiedFilepaths approvals committers = Failed TypeError"
      by (simp add: run_check_raises)
  qed
qed

theorem missing_team_raises_witness:
  "''core-team'' \<in> set (or_empty (conf_teams rule_core)) \<and>
   map_of (or_empty (teams policy_E)) ''core-team'' = None \<and>
   map_of (reviewers policy_E) ''src/'' = Some rule_core \<and>
   (\<exists>file \<in> set [''src/a.ts'']. startsWith file ''src/'') \<and>
   getPossibleApprovers rule_core (or_empty (teams policy_E)) = Inl TypeError \<and>
   check policy_E [''src/a.ts''] [''alice''] = Inl TypeError \<and>
   run example_RegExp policy_E [''src/a.ts''] [''alice''] [Some ''alice''] = Failed TypeError"
proof -
  have h1: "''core-team'' \<in> set (or_empty (conf_teams rule_core))"
    by (simp add: rule_core_def or_empty_def)
  have h2: "map_of (or_empty (teams policy_E)) ''core-team'' = None"
    by (simp add: policy_E_def or_empty_def)
  have h3: "or_empty (teams policy_E) = or_empty (teams policy_E) \<and>
      map_of (reviewers policy_E) ''src/'' = Some rule_core \<and>
      (\<exists>file \<in> set [''src/a.ts'']. startsWith file ''src/'')"
    by (simp add: policy_E_def startsWith_def)
  from missing_team_raises [OF h1 h2, of policy_E "''src/''" "[''src/a.ts'']" "[''alice'']"
      example_RegExp "[Some ''alice'']"] h1 h2 h3
  show ?thesis by blast
qed

text \<open>
  The claim as first stated, that no verdict is produced for any policy with such a rule,
  fails: the policy of scenario E is approved when only \<open>docs/readme.md\<close> is modified.
\<close>

theorem missing_team_unmatched_counterexample:
  "map_of (reviewers policy_E) ''src/'' = Some rule_core \<and>
   ''core-team'' \<in> set (or_empty (conf_teams rule_core)) \<and>
   map_of (or_empty (teams policy_E)) ''core-team'' = None \<and>
   check policy_E [''docs/readme.md''] [] = Inr (True, []) \<and>
   run example_RegExp policy_E [''docs/readme.md''] [] [] = Approved"
  by (simp add: eval_defs run_def policy_E_def rule_core_def)

section \<open>Properties of override evaluation\<close>

lemma someE_Inr:
  "\<forall>x \<in> set xs. f x = Inr (g x) \<Longrightarrow> someE f xs = Inr (\<exists>x \<in> set xs. g x)"
  by (induction xs) auto

lemma everyE_Inr:
  "\<forall>x \<in> set xs. f x = Inr (g x) \<Longrightarrow> everyE f xs = Inr (\<forall>x \<in> set xs. g x)"
  by (induction xs) auto

lemma someE_True: "someE f xs = Inr True \<Longrightarrow> \<exists>x \<in> set xs. f x = Inr True"
  by (induction xs) (auto split: sum.splits if_splits)

lemma everyE_True: "everyE f xs = Inr True \<Longrightarrow> \<forall>x \<in> set xs. f x = Inr True"
  by (induction xs) (auto split: sum.splits if_splits)

lemma someE_not_False: "x \<in> set xs \<Longrightarrow> f x = Inr True \<Longrightarrow> someE f xs \<noteq> Inr False"
  by (induction xs) (auto split: sum.splits if_splits)

lemma modifiedByUsers_clause_iff:
  "modifiedByUsers_clause allowed committers = users_clause_holds allowed committers"
  by (auto simp: modifiedByUsers_clause_def users_clause_holds_def Let_def list_all_iff
      Set_has_new_Set split: option.splits)

lemma RegExp_test_True:
  "RegExp_test RegExp_new pattern file = Inr True \<longleftrightarrow> matches RegExp_new pattern file"
  by (auto simp: RegExp_test_def matches_def split: sum.splits)

lemma RegExp_test_valid:
  "RegExp_new pattern = Inr re \<Longrightarrow>
     RegExp_test RegExp_new pattern file = Inr (matches RegExp_new pattern file)"
  by (simp add: RegExp_test_def matches_def)

lemma modifiedFileRegExs_clause_True:
  assumes "modifiedFileRegExs_clause RegExp_new patterns files = Inr True"
  shows "regexs_clause_holds RegExp_new patterns files"
  unfolding regexs_clause_holds_def
proof
  fix path assume "path \<in> set files"
  with everyE_True [OF assms [unfolded modifiedFileRegExs_clause_def]]
  have "someE (\<lambda>pattern. RegExp_test RegExp_new pattern path) patterns = Inr True" by blast
  from someE_True [OF this]
  show "\<exists>pattern \<in> set patterns. matches RegExp_new pattern path"
    by (simp add: RegExp_test_True)
qed

lemma modifiedFileRegExs_clause_valid:
  assumes "\<forall>pattern \<in> set patterns. \<exists>re. RegExp_new pattern = Inr re"
  shows "modifiedFileRegExs_clause RegExp_new patterns files
    = Inr (regexs_clause_holds RegExp_new patterns files)"
proof -
  have "someE (\<lambda>pattern. RegExp_test RegExp_new pattern path) patterns
      = Inr (\<exists>pattern \<in> set patterns. matches RegExp_new pattern path)" for path
    using assms by (intro someE_Inr) (auto simp: RegExp_test_valid)
  then show ?thesis
    unfolding modifiedFileRegExs_clause_def regexs_clause_holds_def
    by (intro everyE_Inr) simp
qed

lemma criteria_satisfied_True:
  "criteria_satisfied RegExp_new files committers crit = Inr True \<Longrightarrow>
     entry_satisfied RegExp_new files committers crit"
  unfolding criteria_satisfied_def entry_satisfied_def Let_def
  by (auto simp: modifiedByUsers_clause_iff split: option.splits if_splits
      dest: modifiedFileRegExs_clause_True)

lemma criteria_satisfied_valid:
  assumes "\<forall>patterns. onlyModifiedFileRegExs crit = Some patterns \<longrightarrow>
        (\<forall>pattern \<in> set patterns. \<exists>re. RegExp_new pattern = Inr re)"
  shows "criteria_satisfied RegExp_new files committers crit
     = Inr (entry_satisfied RegExp_new files committers crit)"
  using assms unfolding criteria_satisfied_def entry_satisfied_def Let_def
  by (auto simp: modifiedByUsers_clause_iff modifiedFileRegExs_clause_valid
      split: option.splits)

lemma criteria_satisfied_empty_inputs:
  assumes "onlyModifiedByUsers crit \<noteq> None \<longrightarrow> committers = []"
    and "onlyModifiedFileRegExs crit \<noteq> None \<longrightarrow> files = []"
  shows "criteria_satisfied RegExp_new files committers crit = Inr True"
  using assms unfolding criteria_satisfied_def Let_def
  by (auto simp: modifiedByUsers_clause_def modifiedFileRegExs_clause_def split: option.splits)

lemma checkOverride_Nil: "checkOverride RegExp_new [] files committers = Inr False"
  by (simp add: checkOverride_def)

lemma someE_Inl_iff:
  "someE f xs = Inl e \<longleftrightarrow>
     (\<exists>xs1 x xs2. xs = xs1 @ x # xs2 \<and> f x = Inl e \<and> (\<forall>y \<in> set xs1. f y = Inr False))"
proof
  assume "someE f xs = Inl e"
  then show "\<exists>xs1 x xs2. xs = xs1 @ x # xs2 \<and> f x = Inl e \<and> (\<forall>y \<in> set xs1. f y = Inr False)"
  proof (induction xs)
    case Nil
    then show ?case by simp
  next
    case (Cons a xs)
    show ?case
    proof (cases "f a")
      case (Inl e')
      with Cons.prems have "f a = Inl e" by simp
      then have "a # xs = [] @ a # xs \<and> f a = Inl e \<and> (\<forall>y \<in> set []. f y = Inr False)"
        by simp
      then show ?thesis by blast
    next
      case (Inr b)
      with Cons.prems have b: "\<not> b" and "someE f xs = Inl e" by (auto split: if_splits)
      from Cons.IH [OF this(2)] obtain xs1 x xs2 where
        "xs = xs1 @ x # xs2" "f x = Inl e" "\<forall>y \<in> set xs1. f y = Inr False" by blast
      with Inr b have "a # xs = (a # xs1) @ x # xs2 \<and> f x = Inl e \<and>
          (\<forall>y \<in> set (a # xs1). f y = Inr False)"
        by simp
      then show ?thesis by blast
    qed
  qed
next
  assume "\<exists>xs1 x xs2. xs = xs1 @ x # xs2 \<and> f x = Inl e \<and> (\<forall>y \<in> set xs1. f y = Inr False)"
  then obtain xs1 x xs2 where "xs = xs1 @ x # xs2" "f x = Inl e"
    "\<forall>y \<in> set xs1. f y = Inr False" by blast
  then show "someE f xs = Inl e"
    by (induction xs1 arbitrary: xs) auto
qed

lemma someE_True_iff:
  "someE f xs = Inr True \<longleftrightarrow>
     (\<exists>xs1 x xs2. xs = xs1 @ x # xs2 \<and> f x = Inr True \<and> (\<forall>y \<in> set xs1. \<exists>b. f y = Inr b))"
proof
  assume "someE f xs = Inr True"
  then show "\<exists>xs1 x xs2. xs = xs1 @ x # xs2 \<and> f x = Inr True \<and>
      (\<forall>y \<in> set xs1. \<exists>b. f y = Inr b)"
  proof (induction xs)
    case Nil
    then show ?case by simp
  next
    case (Cons a xs)
    from Cons.prems obtain b where fa: "f a = Inr b" by (auto split: sum.splits)
    show ?case
    proof (cases b)
      case True
      with fa have "a # xs = [] @ a # xs \<and> f a = Inr True \<and>
          (\<forall>y \<in> set []. \<exists>b. f y = Inr b)" by simp
      then show ?thesis by blast
    next
      case False
      with fa Cons.prems have "someE f xs = Inr True" by simp
      from Cons.IH [OF this] obtain xs1 x xs2 where
        "xs = xs1 @ x # xs2" "f x = Inr True" "\<forall>y \<in> set xs1. \<exists>b. f y = Inr b" by blast
      with fa have "a # xs = (a # xs1) @ x # xs2 \<and> f x = Inr True \<and>
          (\<forall>y \<in> set (a # xs1). \<exists>b. f y = Inr b)"
        by simp
      then show ?thesis by blast
    qed
  qed
next
  assume "\<exists>xs1 x xs2. xs = xs1 @ x # xs2 \<and> f x = Inr True \<and>
      (\<forall>y \<in> set xs1. \<exists>b. f y = Inr b)"
  then obtain xs1 x xs2 where "xs = xs1 @ x # xs2" "f x = Inr True"
    "\<forall>y \<in> set xs1. \<exists>b. f y = Inr b" by blast
  then show "someE f xs = Inr True"
    by (induction xs1 arbitrary: xs) auto
qed

lemma someE_False_iff: "someE f xs = Inr False \<longleftrightarrow> (\<forall>x \<in> set xs. f x = Inr False)"
  by (induction xs) (auto split: sum.splits if_splits)

lemma everyE_True_iff: "everyE f xs = Inr True \<longleftrightarrow> (\<forall>x \<in> set xs. f x = Inr True)"
  by (induction xs) (auto split: sum.splits if_splits)

lemma everyE_False: "everyE f xs = Inr False \<Longrightarrow> \<exists>x \<in> set xs. f x = Inr False"
  by (induction xs) (auto split: sum.splits if_splits)

lemma everyE_Inl_iff:
  "everyE f xs = Inl e \<longleftrightarrow>
     (\<exists>xs1 x xs2. xs = xs1 @ x # xs2 \<and> f x = Inl e \<and> (\<forall>y \<in> set xs1. f y = Inr True))"
proof
  assume "everyE f xs = Inl e"
  then show "\<exists>xs1 x xs2. xs = xs1 @ x # xs2 \<and> f x = Inl e \<and> (\<forall>y \<in> set xs1. f y = Inr True)"
  proof (induction xs)
    case Nil
    then show ?case by simp
  next
    case (Cons a xs)
    show ?case
    proof (cases "f a")
      case (Inl e')
      with Cons.prems have "f a = Inl e" by simp
      then have "a # xs = [] @ a # xs \<and> f a = Inl e \<and> (\<forall>y \<in> set []. f y = Inr True)"
        by simp
      then show ?thesis by blast
    next
      case (Inr b)
      with Cons.prems have b: "b" and "everyE f xs = Inl e" by (auto split: if_splits)
      from Cons.IH [OF this(2)] obtain xs1 x xs2 where
        "xs = xs1 @ x # xs2" "f x = Inl e" "\<forall>y \<in> set xs1. f y = Inr True" by blast
      with Inr b have "a # xs = (a # xs1) @ x # xs2 \<and> f x = Inl e \<and>
          (\<forall>y \<in> set (a # xs1). f y = Inr True)"
        by simp
      then show ?thesis by blast
    qed
  qed
next
  assume "\<exists>xs1 x xs2. xs = xs1 @ x # xs2 \<and> f x = Inl e \<and> (\<forall>y \<in> set xs1. f y = Inr True)"
  then obtain xs1 x xs2 where "xs = xs1 @ x # xs2" "f x = Inl e"
    "\<forall>y \<in> set xs1. f y = Inr True" by blast
  then show "everyE f xs = Inl e"
    by (induction xs1 arbitrary: xs) auto
qed

lemma RegExp_test_Inl: "RegExp_test RegExp_new p path = Inl e \<longleftrightarrow> RegExp_new p = Inl e"
  by (auto simp: RegExp_test_def split: sum.splits)

lemma RegExp_test_Inr:
  "RegExp_test RegExp_new p path = Inr b \<longleftrightarrow> (\<exists>re. RegExp_new p = Inr re \<and> b = re path)"
  by (auto simp: RegExp_test_def split: sum.splits)

lemma scan_hit:
  "someE (\<lambda>p. RegExp_test RegExp_new p path) patterns = Inr True
     \<longleftrightarrow> file_hit RegExp_new patterns path"
  unfolding someE_True_iff file_hit_def matches_def
  by (simp add: RegExp_test_Inr)

lemma scan_throws:
  "someE (\<lambda>p. RegExp_test RegExp_new p path) patterns = Inl e
     \<longleftrightarrow> file_throws RegExp_new patterns path e"
  unfolding someE_Inl_iff file_throws_def
  by (simp add: RegExp_test_Inr RegExp_test_Inl)

lemma scan_miss:
  "someE (\<lambda>p. RegExp_test RegExp_new p path) patterns = Inr False
     \<longleftrightarrow> (\<forall>p \<in> set patterns. \<exists>re. RegExp_new p = Inr re \<and> \<not> re path)"
  unfolding someE_False_iff by (simp add: RegExp_test_Inr)

lemma modifiedFileRegExs_clause_Inl:
  "modifiedFileRegExs_clause RegExp_new patterns files = Inl e \<longleftrightarrow>
     (\<exists>fs1 path fs2. files = fs1 @ path # fs2 \<and>
        (\<forall>g \<in> set fs1. file_hit RegExp_new patterns g) \<and>
        file_throws RegExp_new patterns path e)"
  unfolding modifiedFileRegExs_clause_def everyE_Inl_iff
  by (simp add: scan_hit scan_throws) blast

lemma modifiedFileRegExs_clause_False:
  assumes "modifiedFileRegExs_clause RegExp_new patterns files = Inr False"
  shows "\<not> regexs_clause_holds RegExp_new patterns files"
proof -
  from everyE_False [OF assms [unfolded modifiedFileRegExs_clause_def]]
  obtain path where p: "path \<in> set files"
    "someE (\<lambda>p. RegExp_test RegExp_new p path) patterns = Inr False" by blast
  from p(2) have "\<forall>p \<in> set patterns. \<not> matches RegExp_new p path"
    by (auto simp: scan_miss matches_def)
  with p(1) show ?thesis by (auto simp: regexs_clause_holds_def)
qed

lemma criteria_satisfied_Inl:
  "criteria_satisfied RegExp_new files committers crit = Inl e
     \<longleftrightarrow> entry_throws RegExp_new files committers crit e"
  unfolding criteria_satisfied_def entry_throws_def Let_def
  by (auto simp: modifiedByUsers_clause_iff modifiedFileRegExs_clause_Inl
      split: option.splits)

lemma criteria_satisfied_False:
  "criteria_satisfied RegExp_new files committers crit = Inr False \<Longrightarrow>
     \<not> entry_satisfied RegExp_new files committers crit"
  unfolding criteria_satisfied_def entry_satisfied_def Let_def
  by (auto simp: modifiedByUsers_clause_iff split: option.splits if_splits
      dest: modifiedFileRegExs_clause_False)

lemma criteria_satisfied_Inr:
  "criteria_satisfied RegExp_new files committers crit = Inr b \<Longrightarrow>
     b = entry_satisfied RegExp_new files committers crit"
  by (cases b) (auto dest: criteria_satisfied_True criteria_satisfied_False)

lemma criteria_satisfied_False_iff:
  "criteria_satisfied RegExp_new files committers crit = Inr False \<longleftrightarrow>
     \<not> entry_satisfied RegExp_new files committers crit \<and>
     (\<forall>e. \<not> entry_throws RegExp_new files committers crit e)"
proof (cases "criteria_satisfied RegExp_new files committers crit")
  case (Inl e)
  then show ?thesis using criteria_satisfied_Inl [of RegExp_new files committers crit e] by auto
next
  case (Inr b)
  have "\<forall>e. \<not> entry_throws RegExp_new files committers crit e"
    using Inr criteria_satisfied_Inl [of RegExp_new files committers crit] by simp
  with Inr criteria_satisfied_Inr [OF Inr] show ?thesis by auto
qed

lemma checkOverride_Inr:
  assumes "checkOverride RegExp_new overrides' files committers = Inr b"
  shows "b = (\<exists>crit \<in> set overrides'. entry_satisfied RegExp_new files committers crit)"
proof (cases b)
  case True
  with assms someE_True [of "criteria_satisfied RegExp_new files committers" overrides']
  show ?thesis by (auto simp: checkOverride_def dest: criteria_satisfied_True)
next
  case False
  with assms have "\<forall>crit \<in> set overrides'.
      criteria_satisfied RegExp_new files committers crit = Inr False"
    by (simp add: checkOverride_def someE_False_iff)
  with False show ?thesis by (auto dest: criteria_satisfied_False)
qed

lemma checkOverride_Inl_iff:
  "checkOverride RegExp_new overrides' files committers = Inl e \<longleftrightarrow>
     (\<exists>pre crit post. overrides' = pre @ crit # post \<and>
        entry_throws RegExp_new files committers crit e \<and>
        (\<forall>c \<in> set pre. \<not> entry_satisfied RegExp_new files committers c \<and>
           (\<forall>e'. \<not> entry_throws RegExp_new files committers c e')))"
  unfolding checkOverride_def someE_Inl_iff
  by (simp add: criteria_satisfied_Inl criteria_satisfied_False_iff)

lemma someE_append:
  "someE f (xs @ ys) =
     (case someE f xs of Inl e \<Rightarrow> Inl e | Inr b \<Rightarrow> if b then Inr True else someE f ys)"
  by (induction xs) (auto split: sum.splits)

lemma checkOverride_no_files:
  assumes "crit \<in> set overrides'"
    and "criteria_satisfied RegExp_new [] committers crit = Inr True"
  shows "checkOverride RegExp_new overrides' [] committers = Inr True"
proof (cases "checkOverride RegExp_new overrides' [] committers")
  case (Inl e)
  then show ?thesis
    by (auto simp: checkOverride_Inl_iff entry_throws_def)
next
  case (Inr b)
  from checkOverride_Inr [OF Inr] assms criteria_satisfied_True [OF assms(2)] Inr
  show ?thesis by auto
qed

lemmas override_eval_defs = checkOverride_def criteria_satisfied_def modifiedByUsers_clause_def
  modifiedFileRegExs_clause_def RegExp_test_def example_RegExp_def new_Set_def Set_add_def
  Set_has_def Let_def

section \<open>The claims about \<open>checkOverride\<close>\<close>

text \<open>
  Claim C2, as amended. Whenever \<open>checkOverride\<close> returns, it returns true if and only if
  at least one entry has all of its present clauses satisfied (or across the entries, and
  across the clauses of an entry): the \<open>onlyModifiedByUsers\<close> clause holds iff every
  committer is defined and allowed, the \<open>onlyModifiedFileRegExs\<close> clause holds iff every
  modified file path matches one of the patterns, and an absent clause holds. It returns
  whenever every pattern of the entries is a valid regular expression, and it returns false
  for the empty list. It throws the error of the \<open>RegExp\<close> constructor exactly when the
  evaluation reaches an invalid pattern: some entry throws, and no entry before it is
  satisfied or throws.
\<close>

theorem checkOverride_iff_some_entry:
  "(\<forall>b. checkOverride RegExp_new overrides' files committers = Inr b \<longrightarrow>
      b = (\<exists>crit \<in> set overrides'. entry_satisfied RegExp_new files committers crit))
   \<and> (patterns_valid RegExp_new overrides' \<longrightarrow>
        checkOverride RegExp_new overrides' files committers
          = Inr (\<exists>crit \<in> set overrides'. entry_satisfied RegExp_new files committers crit))
   \<and> checkOverride RegExp_new [] files committers = Inr False
   \<and> (\<forall>e. checkOverride RegExp_new overrides' files committers = Inl e \<longleftrightarrow>
        (\<exists>pre crit post. overrides' = pre @ crit # post \<and>
           entry_throws RegExp_new files committers crit e \<and>
           (\<forall>c \<in> set pre. \<not> entry_satisfied RegExp_new files committers c \<and>
              (\<forall>e'. \<not> entry_throws RegExp_new files committers c e'))))"
proof (intro conjI allI impI)
  show "b = (\<exists>crit \<in> set overrides'. entry_satisfied RegExp_new files committers crit)"
    if "checkOverride RegExp_new overrides' files committers = Inr b" for b
    using that by (rule checkOverride_Inr)
next
  assume "patterns_valid RegExp_new overrides'"
  then have "\<forall>crit \<in> set overrides'.
      criteria_satisfied RegExp_new files committers crit
        = Inr (entry_satisfied RegExp_new files committers crit)"
    by (auto simp: patterns_valid_def intro!: criteria_satisfied_valid)
  then show "checkOverride RegExp_new overrides' files committers
      = Inr (\<exists>crit \<in> set overrides'. entry_satisfied RegExp_new files committers crit)"
    unfolding checkOverride_def by (rule someE_Inr)
next
  show "checkOverride RegExp_new [] files committers = Inr False"
    by (simp add: checkOverride_def)
next
  show "checkOverride RegExp_new overrides' files committers = Inl e \<longleftrightarrow>
        (\<exists>pre crit post. overrides' = pre @ crit # post \<and>
           entry_throws RegExp_new files committers crit e \<and>
           (\<forall>c \<in> set pre. \<not> entry_satisfied RegExp_new files committers c \<and>
              (\<forall>e'. \<not> entry_throws RegExp_new files committers c e')))" for e
    by (rule checkOverride_Inl_iff)
qed

theorem checkOverride_iff_some_entry_witness:
  "example_RegExp ''^docs/'' \<noteq> Inl SyntaxError \<and>
   checkOverride example_RegExp [override_bot, override_docs] [''docs/readme.md''] [Some ''alice'']
     = Inr True \<and>
   checkOverride example_RegExp [override_bot, override_docs] [''src/a.ts''] [Some ''alice'']
     = Inr False \<and>
   example_RegExp ''('' = Inl SyntaxError \<and>
   checkOverride example_RegExp [override_bot, override_paren, override_any] [''src/a.ts'']
     [Some ''alice''] = Inl SyntaxError \<and>
   checkOverride example_RegExp [override_bot_paren] [''src/a.ts''] [Some ''alice'']
     = Inr False"
proof -
  have v: "patterns_valid example_RegExp [override_bot, override_docs]"
    by (simp add: patterns_valid_def override_bot_def override_docs_def example_RegExp_def)
  have t: "\<exists>crit \<in> set [override_bot, override_docs].
      entry_satisfied example_RegExp [''docs/readme.md''] [Some ''alice''] crit"
    by (simp add: entry_satisfied_def regexs_clause_holds_def matches_def users_clause_holds_def
        override_bot_def override_docs_def example_RegExp_def)
  have f: "\<not> (\<exists>crit \<in> set [override_bot, override_docs].
      entry_satisfied example_RegExp [''src/a.ts''] [Some ''alice''] crit)"
    by (simp add: entry_satisfied_def regexs_clause_holds_def matches_def users_clause_holds_def
        override_bot_def override_docs_def example_RegExp_def)
  note valid = checkOverride_iff_some_entry [THEN conjunct2, THEN conjunct1, rule_format]
  note returns = checkOverride_iff_some_entry [THEN conjunct1, rule_format]
  note throws = checkOverride_iff_some_entry [THEN conjunct2, THEN conjunct2, THEN conjunct2,
      rule_format]
  from valid [OF v, of "[''docs/readme.md'']" "[Some ''alice'']"] t
  have a: "checkOverride example_RegExp [override_bot, override_docs] [''docs/readme.md'']
      [Some ''alice''] = Inr True" by (simp only: simp_thms)
  from valid [OF v, of "[''src/a.ts'']" "[Some ''alice'']"] f
  have b: "checkOverride example_RegExp [override_bot, override_docs] [''src/a.ts'']
      [Some ''alice''] = Inr False" by (simp only: simp_thms)
  have c: "example_RegExp ''^docs/'' \<noteq> Inl SyntaxError"
    and p: "example_RegExp ''('' = Inl SyntaxError"
    by (simp_all add: example_RegExp_def)
  have ft: "file_throws example_RegExp [''(''] ''src/a.ts'' SyntaxError"
    unfolding file_throws_def using p
    by (intro exI [of _ "[]"] exI [of _ "''(''"]) simp
  have th: "entry_throws example_RegExp [''src/a.ts''] [Some ''alice''] override_paren SyntaxError"
    unfolding entry_throws_def using ft
    by (intro conjI exI [of _ "[''('']"] exI [of _ "[]"] exI [of _ "''src/a.ts''"])
      (simp_all add: override_paren_def)
  have nb: "\<not> entry_satisfied example_RegExp [''src/a.ts''] [Some ''alice''] override_bot \<and>
      (\<forall>e'. \<not> entry_throws example_RegExp [''src/a.ts''] [Some ''alice''] override_bot e')"
    by (simp add: entry_satisfied_def entry_throws_def users_clause_holds_def override_bot_def)
  have "\<exists>pre crit post. [override_bot, override_paren, override_any] = pre @ crit # post \<and>
      entry_throws example_RegExp [''src/a.ts''] [Some ''alice''] crit SyntaxError \<and>
      (\<forall>c \<in> set pre. \<not> entry_satisfied example_RegExp [''src/a.ts''] [Some ''alice''] c \<and>
         (\<forall>e'. \<not> entry_throws example_RegExp [''src/a.ts''] [Some ''alice''] c e'))"
    using th nb
    by (intro exI [of _ "[override_bot]"] exI [of _ override_paren] exI [of _ "[override_any]"])
      simp
  then have d: "checkOverride example_RegExp [override_bot, override_paren, override_any]
      [''src/a.ts''] [Some ''alice''] = Inl SyntaxError"
    by (simp only: throws)
  have nt: "\<forall>e. \<not> entry_throws example_RegExp [''src/a.ts''] [Some ''alice'']
      override_bot_paren e"
    by (simp add: entry_throws_def users_clause_holds_def override_bot_paren_def)
  have ns: "\<not> entry_satisfied example_RegExp [''src/a.ts''] [Some ''alice''] override_bot_paren"
    by (simp add: entry_satisfied_def users_clause_holds_def override_bot_paren_def)
  have "\<forall>e. checkOverride example_RegExp [override_bot_paren] [''src/a.ts''] [Some ''alice'']
      \<noteq> Inl e"
  proof (intro allI notI)
    fix e
    assume "checkOverride example_RegExp [override_bot_paren] [''src/a.ts''] [Some ''alice'']
      = Inl e"
    then obtain pre crit post where s: "[override_bot_paren] = pre @ crit # post"
      and et: "entry_throws example_RegExp [''src/a.ts''] [Some ''alice''] crit e"
      unfolding throws by blast
    from s have "crit = override_bot_paren" by (cases pre) auto
    with et nt show False by blast
  qed
  then obtain r where r: "checkOverride example_RegExp [override_bot_paren] [''src/a.ts'']
      [Some ''alice''] = Inr r"
    by (cases "checkOverride example_RegExp [override_bot_paren] [''src/a.ts''] [Some ''alice'']")
      auto
  from returns [OF r] ns have "r = False" by simp
  with r have e: "checkOverride example_RegExp [override_bot_paren] [''src/a.ts'']
      [Some ''alice''] = Inr False" by simp
  from a b c p d e show ?thesis by blast
qed

text \<open>
  The claim as first stated, for every list of override entries, fails on a pattern that is
  not a regular expression: the second entry below has no clause and so is satisfied, but
  the first entry is evaluated first and the \<open>RegExp\<close> constructor throws on its pattern.
\<close>

theorem checkOverride_invalid_pattern_counterexample:
  "onlyModifiedByUsers override_any = None \<and> onlyModifiedFileRegExs override_any = None \<and>
   example_RegExp ''('' = Inl SyntaxError \<and>
   checkOverride example_RegExp [override_paren, override_any] [''src/a.ts''] [Some ''alice'']
     = Inl SyntaxError"
  by (simp add: override_eval_defs override_any_def override_paren_def)

text \<open>
  Claim C9, as amended. Over an empty list of committers the \<open>onlyModifiedByUsers\<close> clause
  holds, and over an empty list of modified file paths the \<open>onlyModifiedFileRegExs\<close>
  clause holds (no pattern is compiled). So the callback returns true for an entry whose
  present clauses all range over empty lists, although nothing was checked against the
  allow-lists. \<open>checkOverride\<close> then returns true unless the entries before that one make
  it throw, and in that case it throws the same error. In particular it returns true when
  the entry comes first, when no file is modified, and when all patterns are valid; and it
  never returns false.
\<close>

theorem empty_inputs_waive:
  "modifiedByUsers_clause allowed [] \<and>
   modifiedFileRegExs_clause RegExp_new patterns [] = Inr True \<and>
   ((onlyModifiedByUsers crit \<noteq> None \<longrightarrow> committers = []) \<and>
    (onlyModifiedFileRegExs crit \<noteq> None \<longrightarrow> files = []) \<longrightarrow>
      criteria_satisfied RegExp_new files committers crit = Inr True \<and>
      checkOverride RegExp_new (pre @ crit # post) files committers
        = (case checkOverride RegExp_new pre files committers of
             Inl e \<Rightarrow> Inl e | Inr b \<Rightarrow> Inr True) \<and>
      checkOverride RegExp_new (crit # post) files committers = Inr True \<and>
      (crit \<in> set overrides' \<longrightarrow>
         checkOverride RegExp_new overrides' files committers \<noteq> Inr False \<and>
         (files = [] \<or> patterns_valid RegExp_new overrides' \<longrightarrow>
            checkOverride RegExp_new overrides' files committers = Inr True)))"
proof (intro conjI impI)
  show "modifiedByUsers_clause allowed []"
    by (simp add: modifiedByUsers_clause_def)
  show "modifiedFileRegExs_clause RegExp_new patterns [] = Inr True"
    by (simp add: modifiedFileRegExs_clause_def)
next
  assume h: "(onlyModifiedByUsers crit \<noteq> None \<longrightarrow> committers = []) \<and>
    (onlyModifiedFileRegExs crit \<noteq> None \<longrightarrow> files = [])"
  then show c: "criteria_satisfied RegExp_new files committers crit = Inr True"
    by (intro criteria_satisfied_empty_inputs) simp_all
  then show "checkOverride RegExp_new (pre @ crit # post) files committers
        = (case checkOverride RegExp_new pre files committers of
             Inl e \<Rightarrow> Inl e | Inr b \<Rightarrow> Inr True)"
    by (simp add: checkOverride_def someE_append split: sum.splits)
  from c show "checkOverride RegExp_new (crit # post) files committers = Inr True"
    by (simp add: checkOverride_def)
  assume m: "crit \<in> set overrides'"
  from someE_not_False [of crit overrides' "criteria_satisfied RegExp_new files committers",
      OF m c]
  show "checkOverride RegExp_new overrides' files committers \<noteq> Inr False"
    by (simp add: checkOverride_def)
  assume "files = [] \<or> patterns_valid RegExp_new overrides'"
  then show "checkOverride RegExp_new overrides' files committers = Inr True"
  proof
    assume "files = []"
    with m c show ?thesis by (simp add: checkOverride_no_files)
  next
    assume v: "patterns_valid RegExp_new overrides'"
    then have "\<forall>x \<in> set overrides'.
        criteria_satisfied RegExp_new files committers x
          = Inr (entry_satisfied RegExp_new files committers x)"
      by (auto simp: patterns_valid_def intro!: criteria_satisfied_valid)
    then have "checkOverride RegExp_new overrides' files committers
        = Inr (\<exists>x \<in> set overrides'. entry_satisfied RegExp_new files committers x)"
      unfolding checkOverride_def by (rule someE_Inr)
    moreover from c have "entry_satisfied RegExp_new files committers crit"
      by (rule criteria_satisfied_True)
    ultimately show ?thesis using m by auto
  qed
qed

theorem empty_inputs_waive_witness:
  "onlyModifiedByUsers override_both = Some [''bot''] \<and>
   onlyModifiedFileRegExs override_both = Some [''^docs/''] \<and>
   criteria_satisfied example_RegExp [] [] override_both = Inr True \<and>
   checkOverride example_RegExp [override_both] [] [] = Inr True \<and>
   checkOverride example_RegExp [override_paren, override_both] [] [] = Inr True \<and>
   checkOverride example_RegExp [override_paren] [''src/a.ts''] [] = Inl SyntaxError \<and>
   checkOverride example_RegExp ([override_paren] @ override_bot # []) [''src/a.ts''] []
     = Inl SyntaxError \<and>
   checkOverride example_RegExp [override_docs] [''src/a.ts''] [] = Inr False \<and>
   checkOverride example_RegExp ([override_docs] @ override_bot # []) [''src/a.ts''] []
     = Inr True"
proof -
  have h: "(onlyModifiedByUsers override_both \<noteq> None \<longrightarrow> ([]::string option list) = []) \<and>
    (onlyModifiedFileRegExs override_both \<noteq> None \<longrightarrow> ([]::string list) = [])"
    by simp
  note w = empty_inputs_waive [of "[''bot'']" example_RegExp "[''^docs/'']" override_both "[]" "[]"]
  from w [of "[]" "[]" "[override_both]"] h
  have a: "criteria_satisfied example_RegExp [] [] override_both = Inr True"
    and b: "checkOverride example_RegExp [override_both] [] [] = Inr True"
    by blast+
  from w [of "[]" "[]" "[override_paren, override_both]"] h
  have c: "checkOverride example_RegExp [override_paren, override_both] [] [] = Inr True"
    by simp
  have hb: "(onlyModifiedByUsers override_bot \<noteq> None \<longrightarrow> ([]::string option list) = []) \<and>
    (onlyModifiedFileRegExs override_bot \<noteq> None \<longrightarrow> [''src/a.ts''] = [])"
    by (simp add: override_bot_def)
  have p: "checkOverride example_RegExp [override_paren] [''src/a.ts''] [] = Inl SyntaxError"
    by (simp add: override_eval_defs override_paren_def)
  have q: "checkOverride example_RegExp [override_docs] [''src/a.ts''] [] = Inr False"
    by (simp add: override_eval_defs override_docs_def)
  from empty_inputs_waive [of "[''bot'']" example_RegExp "[]" override_bot "[]" "[''src/a.ts'']"
      "[override_paren]" "[]" "[]"] hb p
  have d: "checkOverride example_RegExp ([override_paren] @ override_bot # []) [''src/a.ts''] []
     = Inl SyntaxError" by simp
  from empty_inputs_waive [of "[''bot'']" example_RegExp "[]" override_bot "[]" "[''src/a.ts'']"
      "[override_docs]" "[]" "[]"] hb q
  have e: "checkOverride example_RegExp ([override_docs] @ override_bot # []) [''src/a.ts''] []
     = Inr True" by simp
  have "onlyModifiedByUsers override_both = Some [''bot''] \<and>
   onlyModifiedFileRegExs override_both = Some [''^docs/'']"
    by (simp add: override_both_def)
  with a b c d e p q show ?thesis by blast
qed

text \<open>
  The claim as first stated, that \<open>checkOverride\<close> returns true for every such entry,
  fails when an earlier entry has a pattern that is not a regular expression: the only
  clause of the second entry below ranges over the empty list of committers, but the first
  entry is evaluated first and throws.
\<close>

theorem empty_inputs_after_invalid_pattern_counterexample:
  "onlyModifiedByUsers override_bot = Some [''bot''] \<and>
   onlyModifiedFileRegExs override_bot = None \<and>
   criteria_satisfied example_RegExp [''src/a.ts''] [] override_bot = Inr True \<and>
   checkOverride example_RegExp [override_paren, override_bot] [''src/a.ts''] []
     = Inl SyntaxError"
  by (simp add: override_eval_defs override_bot_def override_paren_def)

section \<open>The claim about \<open>run\<close>\<close>

text \<open>
  Claim C4. If \<open>check\<close> returns true the change is approved, whatever the overrides,
  the committers and the engine are; if \<open>check\<close> returns false the change is approved if
  and only if \<open>checkOverride\<close> returns true on the overrides of the policy, absent overrides
  counting as the empty list. Hence the change is approved exactly when \<open>check\<close> returns
  true, or returns false and \<open>checkOverride\<close> returns true.
\<close>

theorem run_approved_iff:
  "(\<forall>log. check reviewersConfig modifiedFilepaths approvals = Inr (True, log) \<longrightarrow>
      run RegExp_new reviewersConfig modifiedFilepaths approvals committers = Approved)
   \<and> (\<forall>log. check reviewersConfig modifiedFilepaths approvals = Inr (False, log) \<longrightarrow>
        (run RegExp_new reviewersConfig modifiedFilepaths approvals committers = Approved \<longleftrightarrow>
         checkOverride RegExp_new (or_empty (overrides reviewersConfig)) modifiedFilepaths
           committers = Inr True))
   \<and> (run RegExp_new reviewersConfig modifiedFilepaths approvals committers = Approved \<longleftrightarrow>
        (\<exists>log. check reviewersConfig modifiedFilepaths approvals = Inr (True, log)) \<or>
        (\<exists>log. check reviewersConfig modifiedFilepaths approvals = Inr (False, log)) \<and>
        checkOverride RegExp_new (or_empty (overrides reviewersConfig)) modifiedFilepaths
          committers = Inr True)"
proof -
  let ?o = "checkOverride RegExp_new (or_empty (overrides reviewersConfig)) modifiedFilepaths
      committers"
  have o: "(case overrides reviewersConfig of None \<Rightarrow> Inr False
            | Some overrides' \<Rightarrow> checkOverride RegExp_new overrides' modifiedFilepaths committers)
           = ?o"
    by (simp add: or_empty_def checkOverride_Nil split: option.splits)
  have t: "run RegExp_new reviewersConfig modifiedFilepaths approvals committers = Approved"
    if "check reviewersConfig modifiedFilepaths approvals = Inr (True, log)" for log
    using that by (simp add: run_def)
  have f: "run RegExp_new reviewersConfig modifiedFilepaths approvals committers = Approved
      \<longleftrightarrow> ?o = Inr True"
    if "check reviewersConfig modifiedFilepaths approvals = Inr (False, log)" for log
    using that unfolding run_def o by (auto split: sum.splits)
  have e: "run RegExp_new reviewersConfig modifiedFilepaths approvals committers \<noteq> Approved"
    if "check reviewersConfig modifiedFilepaths approvals = Inl err" for err
    using that by (simp add: run_def)
  show ?thesis
  proof (cases "check reviewersConfig modifiedFilepaths approvals")
    case (Inl err)
    with e show ?thesis by simp
  next
    case (Inr st)
    then show ?thesis using t f by (cases st; cases "fst st") auto
  qed
qed

theorem run_approved_iff_witness:
  "check policy_A [''src/a.ts''] [''bob'']
     = Inr (True, [InfoLog ''src/ review requirements met.'']) \<and>
   run example_RegExp policy_A [''src/a.ts''] [''bob''] [Some ''carol''] = Approved \<and>
   check policy_C [''src/a.ts''] []
     = Inr (False, [WarnLog [''src/a.ts''] rule_src 0 []]) \<and>
   checkOverride example_RegExp (or_empty (overrides policy_C)) [''src/a.ts''] [Some ''bot'']
     = Inr True \<and>
   run example_RegExp policy_C [''src/a.ts''] [] [Some ''bot''] = Approved \<and>
   checkOverride example_RegExp (or_empty (overrides policy_C)) [''src/a.ts''] [Some ''carol'']
     = Inr False \<and>
   run example_RegExp policy_C [''src/a.ts''] [] [Some ''carol''] \<noteq> Approved"
proof -
  have c1: "check policy_A [''src/a.ts''] [''bob'']
     = Inr (True, [InfoLog ''src/ review requirements met.''])"
    by (simp add: eval_defs policy_A_def rule_src_def)
  have c2: "check policy_C [''src/a.ts''] []
     = Inr (False, [WarnLog [''src/a.ts''] rule_src 0 []])"
    by (simp add: eval_defs policy_C_def rule_src_def)
  have o1: "checkOverride example_RegExp (or_empty (overrides policy_C)) [''src/a.ts'']
      [Some ''bot''] = Inr True"
    by (simp add: override_eval_defs or_empty_def policy_C_def override_bot_def)
  have o2: "checkOverride example_RegExp (or_empty (overrides policy_C)) [''src/a.ts'']
      [Some ''carol''] = Inr False"
    by (simp add: override_eval_defs or_empty_def policy_C_def override_bot_def)
  from run_approved_iff [of policy_A "[''src/a.ts'']" "[''bob'']" example_RegExp
      "[Some ''carol'']"] c1
  have r1: "run example_RegExp policy_A [''src/a.ts''] [''bob''] [Some ''carol''] = Approved"
    by blast
  from run_approved_iff [of policy_C "[''src/a.ts'']" "[]" example_RegExp "[Some ''bot'']"]
    c2 o1
  have r2: "run example_RegExp policy_C [''src/a.ts''] [] [Some ''bot''] = Approved"
    by simp
  from run_approved_iff [of policy_C "[''src/a.ts'']" "[]" example_RegExp "[Some ''carol'']"]
    c2 o2
  have r3: "run example_RegExp policy_C [''src/a.ts''] [] [Some ''carol''] \<noteq> Approved"
    by simp
  from c1 c2 o1 o2 r1 r2 r3 show ?thesis by blast
qed

section \<open>Properties of approval derivation\<close>

lemma map_of_update_present_at:
  "map_of (map (\<lambda>kv. if fst kv = k then (k, v) else kv) kvs) x =
     (if x = k \<and> map_of kvs k \<noteq> None then Some v else map_of kvs x)"
  by (induction kvs) auto

lemma map_of_update_present:
  "k \<in> set (map fst kvs) \<Longrightarrow>
     map_of (map (\<lambda>kv. if fst kv = k then (k, v) else kv) kvs) = (map_of kvs)(k \<mapsto> v)"
  using keys_map_of [of k kvs] by (intro ext) (auto simp: map_of_update_present_at)

lemma map_of_insert_absent:
  "k \<notin> set (map fst xs) \<Longrightarrow> map_of (xs @ (k, v) # ys) = (map_of (xs @ ys))(k \<mapsto> v)"
  by (induction xs) (auto simp: fun_eq_iff)

lemma map_of_obj_insert:
  "k \<notin> set (map fst kvs) \<Longrightarrow> map_of (obj_insert kvs k v) = (map_of kvs)(k \<mapsto> v)"
proof -
  assume a: "k \<notin> set (map fst kvs)"
  let ?P = "\<lambda>kv. index_before (fst kv) k"
  have "set (takeWhile ?P kvs) \<subseteq> set kvs" by (auto dest: set_takeWhileD)
  with a have "k \<notin> set (map fst (takeWhile ?P kvs))" by auto
  from map_of_insert_absent [OF this, of v "dropWhile ?P kvs"]
  have "map_of (takeWhile ?P kvs @ (k, v) # dropWhile ?P kvs) = (map_of kvs)(k \<mapsto> v)"
    by simp
  moreover have "map_of (kvs @ [(k, v)]) = (map_of kvs)(k \<mapsto> v)"
    using map_of_insert_absent [OF a, of v "[]"] by simp
  ultimately show ?thesis by (simp add: obj_insert_def)
qed

lemma map_of_obj_set:
  "k \<noteq> ''__proto__'' \<Longrightarrow> map_of (obj_set kvs k v) = (map_of kvs)(k \<mapsto> v)"
  by (simp add: obj_set_def map_of_update_present map_of_obj_insert)

lemma obj_set_proto: "obj_set kvs ''__proto__'' v = kvs"
  by (simp add: obj_set_def)

lemma distinct_insert_absent:
  "distinct (map fst (xs @ ys)) \<Longrightarrow> k \<notin> set (map fst (xs @ ys)) \<Longrightarrow>
     distinct (map fst (xs @ (k, v) # ys))"
  by auto

lemma distinct_obj_set: "distinct (map fst kvs) \<Longrightarrow> distinct (map fst (obj_set kvs k v))"
proof -
  assume d: "distinct (map fst kvs)"
  let ?P = "\<lambda>kv. index_before (fst kv) k"
  have u: "map fst (map (\<lambda>kv. if fst kv = k then (k, v) else kv) kvs) = map fst kvs"
    by (induction kvs) auto
  have i: "distinct (map fst (obj_insert kvs k v))" if a: "k \<notin> set (map fst kvs)"
  proof -
    have "distinct (map fst (takeWhile ?P kvs @ (k, v) # dropWhile ?P kvs))"
      by (rule distinct_insert_absent) (use d a in simp_all)
    moreover have "distinct (map fst (kvs @ [(k, v)]))"
      using d a by simp
    ultimately show ?thesis by (simp add: obj_insert_def)
  qed
  show ?thesis
  proof (cases "k \<in> set (map fst kvs)")
    case True
    with d u show ?thesis by (simp only: obj_set_def if_True split: if_splits) simp
  next
    case False
    with d i show ?thesis by (simp only: obj_set_def if_False split: if_splits) simp
  qed
qed

lemma distinct_record_review:
  "distinct (map fst reviewStatus) \<Longrightarrow> distinct (map fst (record_review reviewStatus r))"
  by (simp add: record_review_def distinct_obj_set split: option.splits)

lemma distinct_foldl_record_review:
  "distinct (map fst acc) \<Longrightarrow> distinct (map fst (foldl record_review acc rs))"
  by (induction rs arbitrary: acc) (simp_all add: distinct_record_review)

lemma map_of_obj_set_at:
  "map_of (obj_set kvs k v) u =
     (if u = k \<and> k \<noteq> ''__proto__'' then Some v else map_of kvs u)"
proof (cases "k = ''__proto__''")
  case True
  then show ?thesis by (simp add: obj_set_proto)
next
  case False
  then show ?thesis by (simp add: map_of_obj_set)
qed

lemma map_of_record_review:
  "map_of (record_review reviewStatus r) u =
     (if user_login r = Some u \<and> state r \<noteq> ''COMMENTED'' \<and> u \<noteq> ''__proto__''
      then Some (state r) else map_of reviewStatus u)"
  by (auto simp: record_review_def map_of_obj_set_at split: option.splits)

lemma map_of_foldl_record_review:
  "u \<noteq> ''__proto__'' \<Longrightarrow> map_of (foldl record_review acc rs) u =
     (let mine = filter (\<lambda>r. user_login r = Some u \<and> state r \<noteq> ''COMMENTED'') rs
      in if mine = [] then map_of acc u else Some (state (last mine)))"
proof (induction rs rule: rev_induct)
  case Nil
  show ?case by simp
next
  case (snoc r rs)
  then show ?case
    by (simp add: map_of_record_review Let_def)
qed

lemma map_of_foldl_record_review_proto:
  "map_of (foldl record_review acc rs) ''__proto__'' = map_of acc ''__proto__''"
  by (induction rs rule: rev_induct) (simp_all add: map_of_record_review)

lemma getApprovals_member:
  "u \<in> set (getApprovals prReviews) \<longleftrightarrow>
     map_of (foldl record_review [] prReviews) u = Some ''APPROVED''"
  using keys_map_of [of u "foldl record_review [] prReviews"]
  by (auto simp: getApprovals_def Let_def simp del: set_map)

lemma record_review_ignored:
  "user_login r = None \<or> state r = ''COMMENTED'' \<Longrightarrow> record_review reviewStatus r = reviewStatus"
  by (auto simp: record_review_def split: option.splits)

lemma getApprovals_ignored:
  "user_login r = None \<or> state r = ''COMMENTED'' \<Longrightarrow>
     getApprovals (before @ r # after) = getApprovals (before @ after)"
  by (simp add: getApprovals_def record_review_ignored)

lemmas approvals_eval_defs = getApprovals_def record_review_def obj_set_def obj_insert_def
  index_before_def is_array_index_def decimal_value_def digit_val_def is_digit_def Let_def

lemma getApprovals_enumeration_order:
  "getApprovals [review_by ''bob'' ''APPROVED'', review_by ''42'' ''APPROVED'',
     review_by ''7'' ''APPROVED'', review_by ''007'' ''APPROVED'']
     = [''7'', ''42'', ''bob'', ''007'']"
  by (simp add: approvals_eval_defs review_by_def)

section \<open>The claims about \<open>getApprovals\<close>\<close>

text \<open>
  Claim C6. For reviews in chronological order, a user (any login but \<open>__proto__\<close>, which
  is not a GitHub login and is never listed) is in the approvals if and only if the user
  has a review whose state is not \<open>COMMENTED\<close> and the most recent such review has state
  \<open>APPROVED\<close>. No user is listed twice. A later review that is not a comment decides
  alone whether its user is listed, and a \<open>COMMENTED\<close> review changes nothing.
\<close>

theorem getApprovals_latest_state:
  "(u \<noteq> ''__proto__'' \<longrightarrow>
      (u \<in> set (getApprovals prReviews) \<longleftrightarrow>
        (let mine = filter (\<lambda>r. user_login r = Some u \<and> state r \<noteq> ''COMMENTED'') prReviews
         in mine \<noteq> [] \<and> state (last mine) = ''APPROVED'')))
   \<and> distinct (getApprovals prReviews)
   \<and> (u \<noteq> ''__proto__'' \<and> user_login r = Some u \<and> state r \<noteq> ''COMMENTED'' \<longrightarrow>
        (u \<in> set (getApprovals (prReviews @ [r])) \<longleftrightarrow> state r = ''APPROVED''))
   \<and> (state r = ''COMMENTED'' \<longrightarrow>
        getApprovals (before @ r # after) = getApprovals (before @ after))
   \<and> ''__proto__'' \<notin> set (getApprovals prReviews)"
proof (intro conjI impI)
  show "u \<in> set (getApprovals prReviews) \<longleftrightarrow>
      (let mine = filter (\<lambda>r. user_login r = Some u \<and> state r \<noteq> ''COMMENTED'') prReviews
       in mine \<noteq> [] \<and> state (last mine) = ''APPROVED'')"
    if "u \<noteq> ''__proto__''"
    using that by (simp add: getApprovals_member map_of_foldl_record_review Let_def)
  have "distinct (map fst (foldl record_review [] prReviews))"
    by (rule distinct_foldl_record_review) simp
  then show "distinct (getApprovals prReviews)"
    by (simp add: getApprovals_def Let_def)
  show "u \<in> set (getApprovals (prReviews @ [r])) \<longleftrightarrow> state r = ''APPROVED''"
    if "u \<noteq> ''__proto__'' \<and> user_login r = Some u \<and> state r \<noteq> ''COMMENTED''"
    using that by (simp add: getApprovals_member map_of_record_review)
  show "getApprovals (before @ r # after) = getApprovals (before @ after)"
    if "state r = ''COMMENTED''"
    using that by (simp add: getApprovals_ignored)
  show "''__proto__'' \<notin> set (getApprovals prReviews)"
    by (simp add: getApprovals_member map_of_foldl_record_review_proto)
qed

theorem getApprovals_latest_state_witness:
  "''alice'' \<noteq> ''__proto__'' \<and> ''bob'' \<noteq> ''__proto__'' \<and>
   filter (\<lambda>r. user_login r = Some ''alice'' \<and> state r \<noteq> ''COMMENTED'') reviews_example
     = [review_by ''alice'' ''APPROVED'', review_by ''alice'' ''CHANGES_REQUESTED''] \<and>
   ''alice'' \<notin> set (getApprovals reviews_example) \<and>
   filter (\<lambda>r. user_login r = Some ''bob'' \<and> state r \<noteq> ''COMMENTED'') reviews_example
     = [review_by ''bob'' ''APPROVED''] \<and>
   ''bob'' \<in> set (getApprovals reviews_example) \<and>
   getApprovals reviews_example = [''bob'', ''carol''] \<and>
   ''alice'' \<notin> set (getApprovals
      ([review_by ''alice'' ''APPROVED''] @ [review_by ''alice'' ''CHANGES_REQUESTED''])) \<and>
   getApprovals ([review_by ''bob'' ''APPROVED''] @ review_by ''bob'' ''COMMENTED'' # [])
     = [''bob''] \<and>
   getApprovals [review_by ''__proto__'' ''APPROVED'', review_by ''bob'' ''APPROVED'']
     = [''bob'']"
proof -
  have na: "''alice'' \<noteq> ''__proto__''" and nb: "''bob'' \<noteq> ''__proto__''" by simp_all
  have ma: "filter (\<lambda>r. user_login r = Some ''alice'' \<and> state r \<noteq> ''COMMENTED'')
      reviews_example
     = [review_by ''alice'' ''APPROVED'', review_by ''alice'' ''CHANGES_REQUESTED'']"
    by (simp add: reviews_example_def review_by_def)
  have mb: "filter (\<lambda>r. user_login r = Some ''bob'' \<and> state r \<noteq> ''COMMENTED'')
      reviews_example
     = [review_by ''bob'' ''APPROVED'']"
    by (simp add: reviews_example_def review_by_def)
  from getApprovals_latest_state [of "''alice''" reviews_example] ma
  have a: "''alice'' \<notin> set (getApprovals reviews_example)"
    by (simp add: review_by_def)
  from getApprovals_latest_state [of "''bob''" reviews_example] mb
  have b: "''bob'' \<in> set (getApprovals reviews_example)"
    by (simp add: review_by_def)
  have e: "getApprovals reviews_example = [''bob'', ''carol'']"
    by (simp add: approvals_eval_defs reviews_example_def review_by_def)
  from getApprovals_latest_state [of "''alice''" "[review_by ''alice'' ''APPROVED'']"
      "review_by ''alice'' ''CHANGES_REQUESTED''"]
  have c: "''alice'' \<notin> set (getApprovals
      ([review_by ''alice'' ''APPROVED''] @ [review_by ''alice'' ''CHANGES_REQUESTED'']))"
    by (simp add: review_by_def)
  have "getApprovals ([review_by ''bob'' ''APPROVED''] @ []) = [''bob'']"
    by (simp add: approvals_eval_defs review_by_def)
  with getApprovals_latest_state [of _ _ "review_by ''bob'' ''COMMENTED''"
      "[review_by ''bob'' ''APPROVED'']" "[]"]
  have d: "getApprovals ([review_by ''bob'' ''APPROVED''] @ review_by ''bob'' ''COMMENTED'' # [])
     = [''bob'']"
    by (simp add: review_by_def)
  have p: "getApprovals [review_by ''__proto__'' ''APPROVED'', review_by ''bob'' ''APPROVED'']
     = [''bob'']"
    by (simp add: approvals_eval_defs review_by_def)
  from na nb ma mb a b c d e p show ?thesis by blast
qed

text \<open>
  Claim C10. A review whose user is \<open>null\<close> is ignored, whatever its state: it leaves the
  recorded states as they are, and the approvals are those of the list without it.
\<close>

theorem getApprovals_null_user:
  "user_login r = None \<Longrightarrow>
     record_review reviewStatus r = reviewStatus \<and>
     getApprovals (before @ r # after) = getApprovals (before @ after)"
  by (simp add: record_review_ignored getApprovals_ignored)

theorem getApprovals_null_user_witness:
  "user_login review_ghost = None \<and> state review_ghost = ''APPROVED'' \<and>
   record_review [(''alice'', ''CHANGES_REQUESTED'')] review_ghost
     = [(''alice'', ''CHANGES_REQUESTED'')] \<and>
   getApprovals ([review_by ''alice'' ''CHANGES_REQUESTED''] @ review_ghost
      # [review_by ''bob'' ''APPROVED'']) = [''bob'']"
proof -
  have h: "user_login review_ghost = None" by (simp add: review_ghost_def)
  have "getApprovals ([review_by ''alice'' ''CHANGES_REQUESTED''] @ [review_by ''bob'' ''APPROVED''])
      = [''bob'']"
    by (simp add: approvals_eval_defs review_by_def)
  with getApprovals_null_user [OF h, of "[(''alice'', ''CHANGES_REQUESTED'')]"
      "[review_by ''alice'' ''CHANGES_REQUESTED'']" "[review_by ''bob'' ''APPROVED'']"] h
  show ?thesis by (simp add: review_ghost_def)
qed

end
